theory Spec2Isabelle
  imports Complex_Main "HOL-Library.AList" "HOL-Library.Log_Nat"
begin

section \<open>The attack-path analysis engine of Adalanche (modules/analyze/analyzeobjects.go)\<close>

text \<open>
  A shallow embedding of \<^verbatim>\<open>Analyze\<close> and of the option defaulting of
  \<^verbatim>\<open>ParseQueryFromPOST\<close>. The packages \<^verbatim>\<open>engine\<close>, \<^verbatim>\<open>graph\<close>, \<^verbatim>\<open>query\<close> and
  \<^verbatim>\<open>windowssecurity\<close> are not part of the sources at hand; what the analysis calls from
  them is either a field of the record \<open>Engine\<close> below (a parameter of every function) or
  a definition marked as modelled from the specification.

  Go's \<^verbatim>\<open>int\<close> is modelled by \<open>int\<close>; the two places where an operand supplied by the
  caller enters an addition or subtraction are wrapped to 64 bits by \<open>wrap64\<close>. A
  \<^verbatim>\<open>float32\<close> is the rational number it denotes, and every \<^verbatim>\<open>float32\<close> operation rounds
  its exact result with \<open>round32\<close>. Go iterates over maps in an unspecified order; the
  model iterates over lists in list order, which is one of the orders Go may take.
\<close>

subsection \<open>Objects, edge kinds, security identifiers (package engine, windowssecurity)\<close>

type_synonym Object = nat
type_synonym Edge = nat
type_synonym EdgeBitmap = "Edge set"
type_synonym Probability = int
type_synonym ObjectType = nat
type_synonym Attribute = nat
type_synonym SID = "nat list"
type_synonym NodeFilter = "Object \<Rightarrow> bool"

datatype EdgeDirection = In | Out

text \<open>
  Everything the analysis reads from the object store, the edge registry and the query
  layer. \<open>objEdges E d o\<close> is the sequence \<^verbatim>\<open>o.Edges(d).Range\<close> visits;
  \<open>attrInt\<close> is \<^verbatim>\<open>AttrInt\<close> (\<open>None\<close> when the attribute is missing);
  \<open>edgeProbability\<close> is the registered probability function of an edge kind;
  \<open>queryExecute\<close> is \<^verbatim>\<open>query.Execute(filter, objects)\<close>; \<open>SortBy\<close>,
  \<open>EdgeMemberOfGroup\<close> and \<open>AllEdgesBitmap\<close> are the package variables of these names
  (\<open>SortBy = None\<close> stands for \<^verbatim>\<open>engine.NonExistingAttribute\<close>).
\<close>

record Engine =
  objType :: "Object \<Rightarrow> ObjectType"
  objSID :: "Object \<Rightarrow> SID"
  objEdges :: "EdgeDirection \<Rightarrow> Object \<Rightarrow> (Object \<times> EdgeBitmap) list"
  attrInt :: "Object \<Rightarrow> Attribute \<Rightarrow> int option"
  edgeProbability :: "Edge \<Rightarrow> Object \<Rightarrow> Object \<Rightarrow> Probability"
  queryExecute :: "NodeFilter option \<Rightarrow> Object list"
  SortBy :: "Attribute option"
  EdgeMemberOfGroup :: Edge
  AllEdgesBitmap :: EdgeBitmap

text \<open>
  Modelled from the spec: the SID type of package windowssecurity is missing. A SID is the
  list of its numeric components (S-1-5-21-... is \<open>[1, 5, 21, ...]\<close>), the null SID is the
  empty list, \<open>Component\<close> reads a component by index (0 when there is none); the two
  well-known SIDs are S-1-1-0 and S-1-5-11.
\<close>

definition IsNull :: "SID \<Rightarrow> bool" where
  "IsNull s = (s = [])"

definition Component :: "SID \<Rightarrow> nat \<Rightarrow> nat" where
  "Component s i = (if i < length s then s ! i else 0)"

definition EveryoneSID :: SID where
  "EveryoneSID = [1, 1, 0]"

definition AuthenticatedUsersSID :: SID where
  "AuthenticatedUsersSID = [1, 5, 11]"

text \<open>
  Modelled from the spec: \<^verbatim>\<open>EdgeBitmap.MaxProbability(source, target)\<close> is missing. It is
  the largest registered probability over the kinds of the bitmap for the ordered pair, and
  0 for a bitmap that confers nothing.
\<close>

definition MaxProbability :: "Engine \<Rightarrow> EdgeBitmap \<Rightarrow> Object \<Rightarrow> Object \<Rightarrow> Probability" where
  "MaxProbability E eb source target = Max (insert 0 ((\<lambda>k. edgeProbability E k source target) ` eb))"

definition wrap64 :: "int \<Rightarrow> int" where
  "wrap64 x = (x + 2 ^ 63) mod 2 ^ 64 - 2 ^ 63"

subsection \<open>Single-precision arithmetic\<close>

text \<open>
  \<open>round32\<close> is the rounding of IEEE 754 binary32, to nearest with ties to even: 24
  significant bits, exponents from -126 up, subnormal numbers below. \<open>exponent2 a\<close> is
  the exponent of the leading bit of a positive \<open>a\<close>. There is no overflow to infinity in the
  model; it would take a value of 2^128, and the accumulated probability stays at most 1
  as long as the probabilities are at most 100. \<open>float32\<close> is the conversion of an integer,
  \<open>mul32\<close> and \<open>div32\<close> are \<^verbatim>\<open>*\<close> and \<^verbatim>\<open>/\<close> on \<^verbatim>\<open>float32\<close>.
\<close>

definition pow2 :: "int \<Rightarrow> rat" where
  "pow2 k = (if 0 \<le> k then 2 ^ nat k else 1 / 2 ^ nat (- k))"

definition exponent2 :: "rat \<Rightarrow> int" where
  "exponent2 a =
     (let e = bitlen (fst (quotient_of a)) - bitlen (snd (quotient_of a))
      in if pow2 e \<le> a then e else e - 1)"

definition roundEven :: "rat \<Rightarrow> int" where
  "roundEven t =
     (let f = \<lfloor>t\<rfloor>
      in if t - of_int f < 1 / 2 then f
         else if 1 / 2 < t - of_int f then f + 1
         else if even f then f else f + 1)"

definition round32 :: "rat \<Rightarrow> rat" where
  "round32 q =
     (if q = 0 then 0
      else let u = pow2 (max (exponent2 \<bar>q\<bar>) (- 126) - 23)
           in sgn q * of_int (roundEven (\<bar>q\<bar> / u)) * u)"

definition float32 :: "int \<Rightarrow> rat" where
  "float32 i = round32 (of_int i)"

definition mul32 :: "rat \<Rightarrow> rat \<Rightarrow> rat" where
  "mul32 a b = round32 (a * b)"

definition div32 :: "rat \<Rightarrow> rat \<Rightarrow> rat" where
  "div32 a b = round32 (a / b)"

subsection \<open>The working graph (package graph)\<close>

datatype NodeValue = BoolValue bool | IntValue int

text \<open>
  Modelled from the spec: package graph is missing. The working graph has a set of nodes
  (kept as a list without repetition, in insertion order), at most one edge per ordered
  pair labelled with an edge bitmap, and a key/value map per node (an association list
  per node, read by \<open>NodeData\<close>). \<open>AddEdge\<close> creates
  missing endpoints and unions the label into an existing one; \<open>DeleteNode\<close> removes the
  node, its data and every incident edge; \<open>SetNodeData\<close> creates the node when absent
  (seeding adds the targets through it); \<open>Nodes\<close> and \<open>IterateEdges\<close> enumerate a
  snapshot; \<open>StartingNodes\<close>, \<open>EndingNodes\<close> and \<open>Islands\<close> are the nodes of in-degree 0,
  out-degree 0 and total degree 0.
\<close>

record Graph =
  nodes :: "Object list"
  edges :: "((Object \<times> Object) \<times> EdgeBitmap) list"
  nodedata :: "(Object \<times> (string \<times> NodeValue) list) list"

definition NewGraph :: Graph where
  "NewGraph = \<lparr>nodes = [], edges = [], nodedata = []\<rparr>"

definition NodeData :: "Graph \<Rightarrow> Object \<Rightarrow> string \<Rightarrow> NodeValue option" where
  "NodeData pg n k = (case map_of (nodedata pg) n of None \<Rightarrow> None | Some d \<Rightarrow> map_of d k)"

definition HasNode :: "Graph \<Rightarrow> Object \<Rightarrow> bool" where
  "HasNode pg n = (n \<in> set (nodes pg))"

definition Order :: "Graph \<Rightarrow> int" where
  "Order pg = int (length (nodes pg))"

definition Size :: "Graph \<Rightarrow> int" where
  "Size pg = int (length (edges pg))"

definition AddNode :: "Graph \<Rightarrow> Object \<Rightarrow> Graph" where
  "AddNode pg n = (if n \<in> set (nodes pg) then pg else pg\<lparr>nodes := nodes pg @ [n]\<rparr>)"

definition DeleteNode :: "Graph \<Rightarrow> Object \<Rightarrow> Graph" where
  "DeleteNode pg n =
     pg\<lparr>nodes := removeAll n (nodes pg),
        edges := filter (\<lambda>e. fst (fst e) \<noteq> n \<and> snd (fst e) \<noteq> n) (edges pg),
        nodedata := AList.delete n (nodedata pg)\<rparr>"

definition AddEdge :: "Graph \<Rightarrow> Object \<Rightarrow> Object \<Rightarrow> EdgeBitmap \<Rightarrow> Graph" where
  "AddEdge pg source target edge =
     (let pg' = AddNode (AddNode pg source) target
      in pg'\<lparr>edges :=
           (case map_of (edges pg') (source, target) of
              None \<Rightarrow> edges pg' @ [((source, target), edge)]
            | Some old \<Rightarrow> AList.update (source, target) (old \<union> edge) (edges pg'))\<rparr>)"

definition SetNodeData :: "Graph \<Rightarrow> Object \<Rightarrow> string \<Rightarrow> NodeValue \<Rightarrow> Graph" where
  "SetNodeData pg n k v =
     (let pg' = AddNode pg n
      in pg'\<lparr>nodedata :=
           AList.update n
             (AList.update k v (case map_of (nodedata pg') n of None \<Rightarrow> [] | Some d \<Rightarrow> d))
             (nodedata pg')\<rparr>)"

definition StartingNodes :: "Graph \<Rightarrow> Object list" where
  "StartingNodes pg = filter (\<lambda>n. n \<notin> set (map (\<lambda>e. snd (fst e)) (edges pg))) (nodes pg)"

definition EndingNodes :: "Graph \<Rightarrow> Object list" where
  "EndingNodes pg = filter (\<lambda>n. n \<notin> set (map (\<lambda>e. fst (fst e)) (edges pg))) (nodes pg)"

definition Islands :: "Graph \<Rightarrow> Object list" where
  "Islands pg =
     filter (\<lambda>n. n \<notin> set (map (\<lambda>e. fst (fst e)) (edges pg)) \<and>
                 n \<notin> set (map (\<lambda>e. snd (fst e)) (edges pg))) (nodes pg)"

subsection \<open>Options and per-node state\<close>

record AnalyzeOptions =
  Name :: string
  FilterFirst :: "NodeFilter option"
  FilterMiddle :: "NodeFilter option"
  FilterLast :: "NodeFilter option"
  ObjectTypesFirst :: "ObjectType list option"
  ObjectTypesMiddle :: "ObjectType list option"
  ObjectTypesLast :: "ObjectType list option"
  EdgesFirst :: EdgeBitmap
  EdgesMiddle :: EdgeBitmap
  EdgesLast :: EdgeBitmap
  MaxDepth :: int
  MaxOutgoingConnections :: int
  Direction :: EdgeDirection
  Backlinks :: int
  MinEdgeProbability :: Probability
  MinAccumulatedProbability :: Probability
  PruneIslands :: bool
  DontExpandAUEO :: bool
  AllDetails :: bool
  NodeLimit :: int

text \<open>Lines 20-33; the fields the literal leaves out have Go's zero values.\<close>

definition NewAnalyzeObjectsOptions :: "Engine \<Rightarrow> AnalyzeOptions" where
  "NewAnalyzeObjectsOptions E =
     \<lparr>Name = [], FilterFirst = None, FilterMiddle = None, FilterLast = None,
      ObjectTypesFirst = None, ObjectTypesMiddle = None, ObjectTypesLast = None,
      EdgesFirst = AllEdgesBitmap E, EdgesMiddle = AllEdgesBitmap E, EdgesLast = AllEdgesBitmap E,
      MaxDepth = - 1, MaxOutgoingConnections = - 1, Direction = In, Backlinks = 0,
      MinEdgeProbability = 0, MinAccumulatedProbability = 0,
      PruneIslands = False, DontExpandAUEO = True, AllDetails = False, NodeLimit = 0\<rparr>"

text \<open>
  A Go map of object types (\<^verbatim>\<open>map[engine.ObjectType]struct{}\<close>) is the list of its keys,
  \<open>None\<close> when the map is nil; \<open>lenTypes\<close> is \<^verbatim>\<open>len(m)\<close>.
\<close>

definition lenTypes :: "ObjectType list option \<Rightarrow> nat" where
  "lenTypes m = (case m of None \<Rightarrow> 0 | Some ts \<Rightarrow> length ts)"

record GraphNode =
  CanExpand :: int
  processRound :: int
  accumulatedprobability :: rat

text \<open>
  \<^verbatim>\<open>extrainfo\<close>, a Go map from objects to \<^verbatim>\<open>*GraphNode\<close>, is an association list with one
  entry per key, read with \<open>map_of\<close> and written with \<open>AList.update\<close>.
\<close>

type_synonym ExtraInfo = "(Object \<times> GraphNode) list"

subsection \<open>Expansion: the decision on one candidate edge (lines 193-273)\<close>

datatype error = NilPointerDereference | RequestError string

text \<open>
  The callback of \<^verbatim>\<open>currentobject.Edges(opts.Direction).Range\<close> leaves through one of six
  \<^verbatim>\<open>return true // continue\<close> statements or falls through to the recording of the
  candidate. \<open>edgeVerdict\<close> names the exit taken, in the order of the source.
\<close>

datatype Verdict =
    SkipNotChosenEdge
  | SkipObjectType
  | SkipEdgeProbability
  | SkipAccumulatedProbability
  | SkipBacklink
  | SkipFilterMiddle
  | Accept EdgeBitmap Probability

text \<open>
  Lines 222 and 268: \<^verbatim>\<open>ei.accumulatedprobability * float32(maxprobability) / 100\<close>, and the
  bound of line 223: \<^verbatim>\<open>float32(opts.MinAccumulatedProbability) / 100\<close>.
\<close>

definition accumulate :: "rat \<Rightarrow> Probability \<Rightarrow> rat" where
  "accumulate acc maxprobability = div32 (mul32 acc (float32 maxprobability)) 100"

definition accumulatedBound :: "AnalyzeOptions \<Rightarrow> rat" where
  "accumulatedBound opts = div32 (float32 (MinAccumulatedProbability opts)) 100"

text \<open>The condition of the \<^verbatim>\<open>if\<close> of lines 235-243 ("SKIP THIS IF").\<close>

definition backlinkSkip ::
  "Engine \<Rightarrow> AnalyzeOptions \<Rightarrow> Graph \<Rightarrow> ExtraInfo \<Rightarrow> int \<Rightarrow> Object \<Rightarrow> Object \<Rightarrow> bool" where
  "backlinkSkip E opts pg extrainfo currentRound currentobject nextobject =
     (HasNode pg nextobject \<and>
      currentRound > 1 \<and>
      (case map_of extrainfo nextobject of
         None \<Rightarrow> False
       | Some ni \<Rightarrow> wrap64 (processRound ni + Backlinks opts) \<le> currentRound) \<and>
      (IsNull (objSID E currentobject) \<or> IsNull (objSID E nextobject) \<or>
       Component (objSID E currentobject) 2 \<noteq> 21 \<or>
       objSID E currentobject \<noteq> objSID E nextobject))"

definition edgeVerdict ::
  "Engine \<Rightarrow> AnalyzeOptions \<Rightarrow> Graph \<Rightarrow> ExtraInfo \<Rightarrow> int \<Rightarrow> EdgeBitmap \<Rightarrow> ObjectType list option \<Rightarrow>
   Object \<Rightarrow> GraphNode \<Rightarrow> Object \<Rightarrow> EdgeBitmap \<Rightarrow> Verdict" where
  "edgeVerdict E opts pg extrainfo currentRound detectedges detectobjecttypes currentobject ei nextobject eb =
     (let detectededges = eb \<inter> detectedges in
      if detectededges = {} then SkipNotChosenEdge
      else if (case detectobjecttypes of None \<Rightarrow> False | Some ts \<Rightarrow> objType E nextobject \<notin> set ts)
      then SkipObjectType
      else
        let maxprobability =
              (if Direction opts = In then MaxProbability E detectededges nextobject currentobject
               else MaxProbability E detectededges currentobject nextobject) in
        if maxprobability < MinEdgeProbability opts then SkipEdgeProbability
        else if accumulate (accumulatedprobability ei) maxprobability < accumulatedBound opts
        then SkipAccumulatedProbability
        else if backlinkSkip E opts pg extrainfo currentRound currentobject nextobject
        then SkipBacklink
        else if (case FilterMiddle opts of None \<Rightarrow> False | Some f \<Rightarrow> \<not> f nextobject)
        then SkipFilterMiddle
        else Accept detectededges maxprobability)"

type_synonym ConnectionsMap = "((Object \<times> Object) \<times> EdgeBitmap) list"

text \<open>
  The callback: on \<open>Accept\<close> the pair is stored in \<^verbatim>\<open>newconnectionsmap\<close> (lines 253-261) and
  the state of \<^verbatim>\<open>nextobject\<close> is written under the guard of line 263; on every other
  verdict nothing changes.
\<close>

definition rangeEdge ::
  "Engine \<Rightarrow> AnalyzeOptions \<Rightarrow> Graph \<Rightarrow> int \<Rightarrow> EdgeBitmap \<Rightarrow> ObjectType list option \<Rightarrow>
   Object \<Rightarrow> GraphNode \<Rightarrow> Object \<times> EdgeBitmap \<Rightarrow> ConnectionsMap \<times> ExtraInfo \<Rightarrow> ConnectionsMap \<times> ExtraInfo" where
  "rangeEdge E opts pg currentRound detectedges detectobjecttypes currentobject ei ne st =
     (case st of (newconnectionsmap, extrainfo) \<Rightarrow>
      case ne of (nextobject, eb) \<Rightarrow>
      case edgeVerdict E opts pg extrainfo currentRound detectedges detectobjecttypes
             currentobject ei nextobject eb of
        Accept detectededges maxprobability \<Rightarrow>
          (AList.update
             (if Direction opts = In then (nextobject, currentobject) else (currentobject, nextobject))
             detectededges newconnectionsmap,
           if currentRound \<noteq> 1 \<or> map_of extrainfo nextobject = None
           then AList.update nextobject
                  \<lparr>CanExpand = 0, processRound = currentRound + 1,
                   accumulatedprobability = accumulate (accumulatedprobability ei) maxprobability\<rparr>
                  extrainfo
           else extrainfo)
      | _ \<Rightarrow> (newconnectionsmap, extrainfo))"

subsection \<open>Expansion: committing the candidates of one node (lines 275-342)\<close>

definition addEdges :: "Graph \<Rightarrow> ConnectionsMap \<Rightarrow> Graph" where
  "addEdges pg m = fold (\<lambda>e g. AddEdge g (fst (fst e)) (snd (fst e)) (snd e)) m pg"

text \<open>The loop of line 332: \<^verbatim>\<open>for i := 0; i+added < max && i < len(notadded); i++\<close>.\<close>

fun addUpToLimit :: "int \<Rightarrow> int \<Rightarrow> int \<Rightarrow> ConnectionsMap \<Rightarrow> Graph \<times> int \<Rightarrow> Graph \<times> int" where
  "addUpToLimit maxout added i [] (pg, additionaladded) = (pg, additionaladded)"
| "addUpToLimit maxout added i (e # es) (pg, additionaladded) =
     (if i + added < maxout
      then addUpToLimit maxout added (i + 1) es
             (AddEdge pg (fst (fst e)) (snd (fst e)) (snd e), additionaladded + 1)
      else (pg, additionaladded))"

text \<open>
  The key of \<^verbatim>\<open>sort.Slice\<close> (lines 319-328): the attribute of the far endpoint, 0 when it
  is missing, in descending order. \<^verbatim>\<open>sort.Slice\<close> is not stable; the model takes the
  stable result, one of those it may return.
\<close>

definition sortKey :: "Engine \<Rightarrow> AnalyzeOptions \<Rightarrow> Attribute \<Rightarrow> (Object \<times> Object) \<times> EdgeBitmap \<Rightarrow> int" where
  "sortKey E opts a e =
     (case attrInt E (if Direction opts = In then fst (fst e) else snd (fst e)) a of
        None \<Rightarrow> 0 | Some v \<Rightarrow> v)"

definition sortNotAdded :: "Engine \<Rightarrow> AnalyzeOptions \<Rightarrow> Attribute \<Rightarrow> ConnectionsMap \<Rightarrow> ConnectionsMap" where
  "sortNotAdded E opts a notadded = sort_key (\<lambda>e. - sortKey E opts a e) notadded"

definition isGroupEdge :: "Engine \<Rightarrow> (Object \<times> Object) \<times> EdgeBitmap \<Rightarrow> bool" where
  "isGroupEdge E e = (EdgeMemberOfGroup E \<in> snd e)"

text \<open>
  The result is the graph and, when the limit was hit, the value assigned to
  \<^verbatim>\<open>ei.CanExpand\<close> on line 341.
\<close>

definition commitConnections ::
  "Engine \<Rightarrow> AnalyzeOptions \<Rightarrow> Graph \<Rightarrow> ConnectionsMap \<Rightarrow> Graph \<times> int option" where
  "commitConnections E opts pg newconnectionsmap =
     (if MaxOutgoingConnections opts = - 1 \<or>
         int (length newconnectionsmap) < MaxOutgoingConnections opts
      then (addEdges pg newconnectionsmap, None)
      else
        let groupcount = int (length (filter (isGroupEdge E) newconnectionsmap));
            fits = (groupcount < MaxOutgoingConnections opts);
            pg1 = (if fits then addEdges pg (filter (isGroupEdge E) newconnectionsmap) else pg);
            remaining = (if fits then filter (\<lambda>e. \<not> isGroupEdge E e) newconnectionsmap
                         else newconnectionsmap);
            added = (if fits then groupcount else 0)
        in case SortBy E of
             None \<Rightarrow> (pg1, Some (int (length remaining) - added))
           | Some a \<Rightarrow>
               (case addUpToLimit (MaxOutgoingConnections opts) added 0
                       (sortNotAdded E opts a remaining) (pg1, 0) of
                  (pg2, additionaladded) \<Rightarrow>
                    (pg2, Some (int (length remaining) - (added + additionaladded)))))"

subsection \<open>Expansion: one node, one round, all rounds (lines 163-352)\<close>

text \<open>
  Line 341 writes through the pointer \<^verbatim>\<open>ei\<close> read on line 179. The entry of
  \<^verbatim>\<open>currentobject\<close> in \<^verbatim>\<open>extrainfo\<close> still is that struct unless the callback replaced it
  by a new one, whose \<^verbatim>\<open>processRound\<close> is \<^verbatim>\<open>currentRound + 1\<close> and so differs from
  \<^verbatim>\<open>ei.processRound\<close>; then the write reaches only the struct that the map has dropped.
\<close>

definition setCanExpand :: "ExtraInfo \<Rightarrow> Object \<Rightarrow> GraphNode \<Rightarrow> int \<Rightarrow> ExtraInfo" where
  "setCanExpand extrainfo currentobject ei c =
     (if map_of extrainfo currentobject = Some ei
      then AList.update currentobject (ei\<lparr>CanExpand := c\<rparr>) extrainfo
      else extrainfo)"

definition isAUEO :: "Engine \<Rightarrow> AnalyzeOptions \<Rightarrow> Object \<Rightarrow> bool" where
  "isAUEO E opts currentobject =
     (Direction opts = In \<and> DontExpandAUEO opts \<and>
      (objSID E currentobject = EveryoneSID \<or> objSID E currentobject = AuthenticatedUsersSID))"

definition processNode ::
  "Engine \<Rightarrow> AnalyzeOptions \<Rightarrow> int \<Rightarrow> EdgeBitmap \<Rightarrow> ObjectType list option \<Rightarrow> Object \<Rightarrow>
   Graph \<times> ExtraInfo \<Rightarrow> error + Graph \<times> ExtraInfo" where
  "processNode E opts currentRound detectedges detectobjecttypes currentobject st =
     (case st of (pg, extrainfo) \<Rightarrow>
      case map_of extrainfo currentobject of
        None \<Rightarrow> Inl NilPointerDereference
      | Some ei \<Rightarrow>
          if processRound ei \<noteq> currentRound then Inr (pg, extrainfo)
          else if isAUEO E opts currentobject then Inr (pg, extrainfo)
          else
            case fold (rangeEdge E opts pg currentRound detectedges detectobjecttypes currentobject ei)
                   (objEdges E (Direction opts) currentobject) ([], extrainfo) of
              (newconnectionsmap, extrainfo') \<Rightarrow>
                (case commitConnections E opts pg newconnectionsmap of
                   (pg', None) \<Rightarrow> Inr (pg', extrainfo')
                 | (pg', Some c) \<Rightarrow> Inr (pg', setCanExpand extrainfo' currentobject ei c)))"

text \<open>
  \<^verbatim>\<open>for currentobject := range pg.Nodes()\<close>: the nodes present when the round starts, in
  list order. A node added during the round has \<^verbatim>\<open>processRound = currentRound + 1\<close> and
  would be passed over if Go visited it.
\<close>

fun processNodes ::
  "Engine \<Rightarrow> AnalyzeOptions \<Rightarrow> int \<Rightarrow> EdgeBitmap \<Rightarrow> ObjectType list option \<Rightarrow> Object list \<Rightarrow>
   Graph \<times> ExtraInfo \<Rightarrow> error + Graph \<times> ExtraInfo" where
  "processNodes E opts currentRound detectedges detectobjecttypes [] st = Inr st"
| "processNodes E opts currentRound detectedges detectobjecttypes (n # ns) st =
     (case processNode E opts currentRound detectedges detectobjecttypes n st of
        Inl e \<Rightarrow> Inl e
      | Inr st' \<Rightarrow> processNodes E opts currentRound detectedges detectobjecttypes ns st')"

text \<open>Lines 165-171: from round 2 on the middle policy replaces the first one.\<close>

definition roundEdges :: "AnalyzeOptions \<Rightarrow> int \<Rightarrow> EdgeBitmap \<Rightarrow> EdgeBitmap" where
  "roundEdges opts currentRound detectedges =
     (if currentRound = 2 then EdgesMiddle opts else detectedges)"

definition roundTypes :: "AnalyzeOptions \<Rightarrow> int \<Rightarrow> ObjectType list option \<Rightarrow> ObjectType list option" where
  "roundTypes opts currentRound detectobjecttypes =
     (if currentRound = 2
      then (if lenTypes (ObjectTypesMiddle opts) > 0 then ObjectTypesMiddle opts else None)
      else detectobjecttypes)"

text \<open>
  The loop of line 163. It need not end when \<^verbatim>\<open>MaxDepth\<close> is -1 and the store keeps
  yielding new objects, so its result is optional: \<open>None\<close> is a run that never returns.
\<close>

partial_function (option) expandRounds ::
  "Engine \<Rightarrow> AnalyzeOptions \<Rightarrow> int \<Rightarrow> EdgeBitmap \<Rightarrow> ObjectType list option \<Rightarrow> Graph \<Rightarrow> ExtraInfo \<Rightarrow>
   (error + Graph \<times> ExtraInfo) option" where
  "expandRounds E opts currentRound detectedges detectobjecttypes pg extrainfo =
     (if MaxDepth opts \<ge> currentRound \<or> MaxDepth opts = - 1
      then
        (case processNodes E opts currentRound (roundEdges opts currentRound detectedges)
                (roundTypes opts currentRound detectobjecttypes) (nodes pg) (pg, extrainfo) of
           Inl e \<Rightarrow> Some (Inl e)
         | Inr st' \<Rightarrow>
             if Order pg = Order (fst st') then Some (Inr st')
             else expandRounds E opts (currentRound + 1) (roundEdges opts currentRound detectedges)
                    (roundTypes opts currentRound detectobjecttypes) (fst st') (snd st'))
      else Some (Inr (pg, extrainfo)))"

declare expandRounds.simps [code]

subsection \<open>Seeding (lines 138-156)\<close>

definition seedState :: "ExtraInfo \<Rightarrow> Object \<Rightarrow> ExtraInfo" where
  "seedState extrainfo n =
     (if (case map_of extrainfo n of None \<Rightarrow> True | Some ei \<Rightarrow> processRound ei = 0)
      then AList.update n \<lparr>CanExpand = 0, processRound = 1, accumulatedprobability = 1\<rparr> extrainfo
      else extrainfo)"

definition seedObject :: "Object \<Rightarrow> Graph \<times> ExtraInfo \<Rightarrow> Graph \<times> ExtraInfo" where
  "seedObject n st =
     (let pg' = SetNodeData (fst st) n ''target'' (BoolValue True)
      in (pg', fold (\<lambda>m x. seedState x m) (nodes pg') (snd st)))"

definition seed :: "Engine \<Rightarrow> AnalyzeOptions \<Rightarrow> Graph \<times> ExtraInfo" where
  "seed E opts = fold seedObject (queryExecute E (FilterFirst opts)) (NewGraph, [])"

subsection \<open>Outer-layer trim (lines 363-427)\<close>

definition outerNodes :: "AnalyzeOptions \<Rightarrow> Graph \<Rightarrow> Object list" where
  "outerNodes opts pg = (if Direction opts = In then StartingNodes pg else EndingNodes pg)"

definition lastTypes :: "AnalyzeOptions \<Rightarrow> ObjectType list option" where
  "lastTypes opts = (if lenTypes (ObjectTypesLast opts) > 0 then ObjectTypesLast opts else None)"

definition endNode :: "AnalyzeOptions \<Rightarrow> (Object \<times> Object) \<times> EdgeBitmap \<Rightarrow> Object" where
  "endNode opts e = (if Direction opts = In then fst (fst e) else snd (fst e))"

text \<open>
  The three tests of the callback of \<^verbatim>\<open>pg.IterateEdges\<close> on an outer end node; each
  failing test deletes the node and counts one removal.
\<close>

definition lastRejects :: "Engine \<Rightarrow> AnalyzeOptions \<Rightarrow> (Object \<times> Object) \<times> EdgeBitmap \<Rightarrow> bool" where
  "lastRejects E opts e =
     (if EdgesLast opts \<inter> snd e = {} then True
      else if (case lastTypes opts of None \<Rightarrow> False | Some ts \<Rightarrow> objType E (endNode opts e) \<notin> set ts)
      then True
      else (case FilterLast opts of None \<Rightarrow> False | Some f \<Rightarrow> \<not> f (endNode opts e)))"

definition trimEdge ::
  "Engine \<Rightarrow> AnalyzeOptions \<Rightarrow> Object list \<Rightarrow> (Object \<times> Object) \<times> EdgeBitmap \<Rightarrow>
   Graph \<times> int \<Rightarrow> Graph \<times> int" where
  "trimEdge E opts outernodes e st =
     (if endNode opts e \<in> set outernodes \<and> lastRejects E opts e
      then (DeleteNode (fst st) (endNode opts e), snd st + 1)
      else st)"

definition trimPass :: "Engine \<Rightarrow> AnalyzeOptions \<Rightarrow> Graph \<Rightarrow> Graph \<times> int" where
  "trimPass E opts pg = fold (trimEdge E opts (outerNodes opts pg)) (edges pg) (pg, 0)"

text \<open>
  The loop of line 370 runs passes until one removes nothing. It ends because a pass that
  counts a removal has deleted a node of the graph.
\<close>

lemma nodes_DeleteNode: "nodes (DeleteNode g n) = removeAll n (nodes g)"
  by (simp add: DeleteNode_def)

lemma fold_trimEdge_mono:
  "length (nodes (fst (fold (trimEdge E opts outer) es st))) \<le> length (nodes (fst st)) \<and>
   snd st \<le> snd (fold (trimEdge E opts outer) es st)"
proof (induction es arbitrary: st)
  case Nil
  show ?case by simp
next
  case (Cons e es)
  have a: "length (nodes (fst (trimEdge E opts outer e st))) \<le> length (nodes (fst st))"
    by (simp add: trimEdge_def nodes_DeleteNode length_removeAll_less_eq)
  have b: "snd st \<le> snd (trimEdge E opts outer e st)"
    by (simp add: trimEdge_def)
  from Cons.IH [of "trimEdge E opts outer e st"] a b show ?case by simp
qed


lemma fold_trimEdge_less:
  "set outer \<subseteq> set (nodes (fst st)) \<Longrightarrow> snd (fold (trimEdge E opts outer) es st) \<noteq> snd st \<Longrightarrow>
   length (nodes (fst (fold (trimEdge E opts outer) es st))) < length (nodes (fst st))"
proof (induction es arbitrary: st)
  case Nil
  then show ?case by simp
next
  case (Cons e es)
  let ?st1 = "trimEdge E opts outer e st"
  show ?case
  proof (cases "?st1 = st")
    case True
    with Cons.IH [of st] Cons.prems show ?thesis by simp
  next
    case False
    then have d: "endNode opts e \<in> set outer"
      and s: "?st1 = (DeleteNode (fst st) (endNode opts e), snd st + 1)"
      by (auto simp: trimEdge_def split: if_splits)
    from d Cons.prems(1) have "endNode opts e \<in> set (nodes (fst st))" by auto
    then have "length (nodes (fst ?st1)) < length (nodes (fst st))"
      by (simp add: s nodes_DeleteNode length_removeAll_less)
    moreover have "length (nodes (fst (fold (trimEdge E opts outer) es ?st1))) \<le> length (nodes (fst ?st1))"
      using fold_trimEdge_mono [of E opts outer es ?st1] by simp
    ultimately show ?thesis by simp
  qed
qed

lemma outerNodes_subset: "set (outerNodes opts g) \<subseteq> set (nodes g)"
  by (auto simp: outerNodes_def StartingNodes_def EndingNodes_def)

lemma trimPass_less:
  "snd (trimPass E opts g) \<noteq> 0 \<Longrightarrow> length (nodes (fst (trimPass E opts g))) < length (nodes g)"
  using fold_trimEdge_less [of "outerNodes opts g" "(g, 0)" E opts "edges g"]
    outerNodes_subset [of opts g]
  by (simp add: trimPass_def)

function trimLoop :: "Engine \<Rightarrow> AnalyzeOptions \<Rightarrow> Graph \<Rightarrow> Graph" where
  "trimLoop E opts g =
     (if snd (trimPass E opts g) = 0 then fst (trimPass E opts g)
      else trimLoop E opts (fst (trimPass E opts g)))"
  by pat_completeness auto
termination
  by (relation "measure (\<lambda>(E, opts, g). length (nodes g))") (auto simp: trimPass_less)

declare trimLoop.simps [simp del]

lemma trimLoop_stop:
  "snd (trimPass E opts g) = 0 \<Longrightarrow> trimLoop E opts g = fst (trimPass E opts g)"
  by (subst trimLoop.simps) simp

lemma trimLoop_step:
  "snd (trimPass E opts g) \<noteq> 0 \<Longrightarrow> trimLoop E opts g = trimLoop E opts (fst (trimPass E opts g))"
  by (subst trimLoop.simps) (simp only: if_False)

text \<open>Lines 430-438 and 502-510: the outer nodes are marked as sources.\<close>

definition markSources :: "AnalyzeOptions \<Rightarrow> Graph \<Rightarrow> Graph" where
  "markSources opts g = fold (\<lambda>n h. SetNodeData h n ''source'' (BoolValue True)) (outerNodes opts g) g"

subsection \<open>Node-budget prune (lines 442-483)\<close>

datatype Warning = NotAllNodesProcessed int int | NoOuterNodesToRemove int

text \<open>Lines 460-465: the largest \<^verbatim>\<open>processRound\<close> among the outer nodes, starting from 0.\<close>

definition maxRound :: "ExtraInfo \<Rightarrow> Object list \<Rightarrow> int" where
  "maxRound extrainfo outernodes =
     fold (\<lambda>n m. case map_of extrainfo n of
                    None \<Rightarrow> m
                  | Some ei \<Rightarrow> if m < processRound ei then processRound ei else m)
       outernodes 0"

text \<open>
  Lines 467-477: the state is the graph, \<^verbatim>\<open>lefttoremove\<close> and \<^verbatim>\<open>removedthisround\<close>; the
  loop breaks as soon as \<^verbatim>\<open>lefttoremove\<close> is 0.
\<close>

definition atMaxRound :: "ExtraInfo \<Rightarrow> int \<Rightarrow> Object \<Rightarrow> bool" where
  "atMaxRound extrainfo maxround n = (map_option processRound (map_of extrainfo n) = Some maxround)"

fun pruneOuter :: "ExtraInfo \<Rightarrow> int \<Rightarrow> Object list \<Rightarrow> Graph \<times> int \<times> int \<Rightarrow> Graph \<times> int \<times> int" where
  "pruneOuter extrainfo maxround [] st = st"
| "pruneOuter extrainfo maxround (n # ns) (g, lefttoremove, removedthisround) =
     (if atMaxRound extrainfo maxround n
      then (if lefttoremove - 1 = 0
            then (DeleteNode g n, lefttoremove - 1, removedthisround + 1)
            else pruneOuter extrainfo maxround ns
                   (DeleteNode g n, lefttoremove - 1, removedthisround + 1))
      else (if lefttoremove = 0
            then (g, lefttoremove, removedthisround)
            else pruneOuter extrainfo maxround ns (g, lefttoremove, removedthisround)))"

lemma pruneOuter_triple:
  "pruneOuter extrainfo maxround ns (g, l, r) = (g', l', r') \<Longrightarrow> l' + r' = l + r \<and> r \<le> r'"
proof (induction ns arbitrary: g l r)
  case Nil
  then show ?case by simp
next
  case (Cons n ns)
  show ?case
  proof (cases "atMaxRound extrainfo maxround n")
    case True
    show ?thesis
    proof (cases "l - 1 = 0")
      case True
      with \<open>atMaxRound extrainfo maxround n\<close> Cons.prems
      show ?thesis by auto
    next
      case False
      with True Cons.prems
      have "pruneOuter extrainfo maxround ns (DeleteNode g n, l - 1, r + 1) = (g', l', r')"
        by simp
      from Cons.IH [OF this] show ?thesis by simp
    qed
  next
    case False
    show ?thesis
    proof (cases "l = 0")
      case True
      with False Cons.prems show ?thesis by auto
    next
      case nz: False
      with False Cons.prems
      have "pruneOuter extrainfo maxround ns (g, l, r) = (g', l', r')" by simp
      from Cons.IH [OF this] show ?thesis by simp
    qed
  qed
qed

lemma pruneOuter_count:
  "fst (snd (pruneOuter extrainfo maxround ns st)) + snd (snd (pruneOuter extrainfo maxround ns st))
     = fst (snd st) + snd (snd st) \<and>
   snd (snd st) \<le> snd (snd (pruneOuter extrainfo maxround ns st))"
proof -
  obtain g l r where st: "st = (g, l, r)" by (cases st) auto
  obtain g' l' r' where res: "pruneOuter extrainfo maxround ns (g, l, r) = (g', l', r')"
    by (cases "pruneOuter extrainfo maxround ns (g, l, r)") auto
  from pruneOuter_triple [OF res] show ?thesis by (simp add: st res)
qed

text \<open>Lines 451-477: one pass of the loop of line 449.\<close>

definition budgetPass :: "AnalyzeOptions \<Rightarrow> ExtraInfo \<Rightarrow> Graph \<Rightarrow> int \<Rightarrow> Graph \<times> int \<times> int" where
  "budgetPass opts extrainfo g lefttoremove =
     pruneOuter extrainfo (maxRound extrainfo (outerNodes opts g)) (outerNodes opts g)
       (g, lefttoremove, 0)"

lemma budgetPass_count:
  "fst (snd (budgetPass opts extrainfo g l)) + snd (snd (budgetPass opts extrainfo g l)) = l \<and>
   0 \<le> snd (snd (budgetPass opts extrainfo g l))"
  using pruneOuter_count [of extrainfo "maxRound extrainfo (outerNodes opts g)"
      "outerNodes opts g" "(g, l, 0)"]
  by (simp add: budgetPass_def)

text \<open>
  The loop of line 449. A missing state of an outer node is a nil pointer dereference on
  line 462, before anything is deleted in that pass. The warning of line 479 ends the loop.
\<close>

function budgetLoop ::
  "AnalyzeOptions \<Rightarrow> ExtraInfo \<Rightarrow> Graph \<Rightarrow> int \<Rightarrow> error + Graph \<times> Warning list" where
  "budgetLoop opts extrainfo g lefttoremove =
     (if lefttoremove > 0
      then
        if list_ex (\<lambda>n. map_of extrainfo n = None) (outerNodes opts g)
        then Inl NilPointerDereference
        else if snd (snd (budgetPass opts extrainfo g lefttoremove)) = 0 \<and>
                fst (snd (budgetPass opts extrainfo g lefttoremove)) > 0
        then Inr (fst (budgetPass opts extrainfo g lefttoremove),
                  [NoOuterNodesToRemove (fst (snd (budgetPass opts extrainfo g lefttoremove)))])
        else budgetLoop opts extrainfo (fst (budgetPass opts extrainfo g lefttoremove))
               (fst (snd (budgetPass opts extrainfo g lefttoremove)))
      else Inr (g, []))"
  by pat_completeness auto
termination
proof (relation "measure (\<lambda>(opts, extrainfo, g, lefttoremove). nat lefttoremove)")
  show "wf (measure (\<lambda>(opts, extrainfo, g, lefttoremove). nat lefttoremove))" by simp
next
  fix opts :: AnalyzeOptions and extrainfo :: ExtraInfo and g :: Graph and lefttoremove :: int
  let ?r = "budgetPass opts extrainfo g lefttoremove"
  assume "0 < lefttoremove" and "\<not> (snd (snd ?r) = 0 \<and> 0 < fst (snd ?r))"
  with budgetPass_count [of opts extrainfo g lefttoremove]
  show "((opts, extrainfo, fst ?r, fst (snd ?r)), (opts, extrainfo, g, lefttoremove))
      \<in> measure (\<lambda>(opts, extrainfo, g, lefttoremove). nat lefttoremove)"
    by auto
qed

declare budgetLoop.simps [simp del]

subsection \<open>Island prune, finalization and the result (lines 485-527)\<close>

definition pruneIslands :: "AnalyzeOptions \<Rightarrow> Graph \<Rightarrow> Graph" where
  "pruneIslands opts g =
     (if PruneIslands opts then fold (\<lambda>n h. DeleteNode h n) (Islands g) g else g)"

definition publishCanExpand :: "ExtraInfo \<Rightarrow> Graph \<Rightarrow> Graph" where
  "publishCanExpand extrainfo g =
     fold (\<lambda>x h. if HasNode h (fst x) \<and> CanExpand (snd x) > 0
                  then SetNodeData h (fst x) ''canexpand'' (IntValue (CanExpand (snd x)))
                  else h)
       extrainfo g"

record AnalysisResults =
  Graph :: Graph
  Removed :: int

text \<open>
  Everything after the expansion loop. \<open>trimmed\<close> is the graph when line 442 reads
  \<^verbatim>\<open>totalnodes := pg.Order()\<close>.
\<close>

definition trimmed :: "Engine \<Rightarrow> AnalyzeOptions \<Rightarrow> Graph \<Rightarrow> Graph" where
  "trimmed E opts g = markSources opts (trimLoop E opts g)"

definition budgetPrune :: "AnalyzeOptions \<Rightarrow> ExtraInfo \<Rightarrow> Graph \<Rightarrow> error + Graph \<times> Warning list" where
  "budgetPrune opts extrainfo g =
     (if NodeLimit opts > 0 \<and> wrap64 (Order g - NodeLimit opts) > 0
      then budgetLoop opts extrainfo g (wrap64 (Order g - NodeLimit opts))
      else Inr (g, []))"

definition finish :: "AnalyzeOptions \<Rightarrow> ExtraInfo \<Rightarrow> Graph \<Rightarrow> Graph" where
  "finish opts extrainfo g = publishCanExpand extrainfo (markSources opts (pruneIslands opts g))"

definition postProcess ::
  "Engine \<Rightarrow> AnalyzeOptions \<Rightarrow> Graph \<times> ExtraInfo \<Rightarrow> error + AnalysisResults \<times> Warning list" where
  "postProcess E opts st =
     (case budgetPrune opts (snd st) (trimmed E opts (fst st)) of
        Inl e \<Rightarrow> Inl e
      | Inr (g, warnings) \<Rightarrow>
          Inr (\<lparr>Graph = finish opts (snd st) g,
                Removed = Order (trimmed E opts (fst st)) - Order (finish opts (snd st) g)\<rparr>,
               (if int (length (snd st)) \<noteq> Order (fst st)
                then [NotAllNodesProcessed (Order (fst st)) (int (length (snd st)))] else [])
               @ warnings))"

definition Analyze ::
  "Engine \<Rightarrow> AnalyzeOptions \<Rightarrow> (error + AnalysisResults \<times> Warning list) option" where
  "Analyze E opts =
     (case expandRounds E opts 1 (EdgesFirst opts) (ObjectTypesFirst opts)
             (fst (seed E opts)) (snd (seed E opts)) of
        None \<Rightarrow> None
      | Some (Inl e) \<Rightarrow> Some (Inl e)
      | Some (Inr st) \<Rightarrow> Some (postProcess E opts st))"

subsection \<open>Option defaulting of ParseQueryFromPOST (lines 58-114)\<close>

text \<open>
  The request context, the query definition and its parsers are not in the sources. What
  they return to \<^verbatim>\<open>ParseQueryFromPOST\<close> is a record: the error of
  \<^verbatim>\<open>ParseQueryDefinitionFromPOST\<close>, the result of \<^verbatim>\<open>qd.AnalysisOptions\<close>, the error of
  \<^verbatim>\<open>ShouldBindBodyWithJSON\<close>, the values parsed from the string parameters
  \<^verbatim>\<open>alldetails\<close> and \<^verbatim>\<open>nodelimit\<close> (\<open>None\<close> when the parameter is not a string), and the
  three results of \<^verbatim>\<open>ParseObjectTypeStrings\<close>.
\<close>

record PostedQuery =
  definitionError :: "error option"
  analysisOptions :: "error + AnalyzeOptions"
  bindError :: "error option"
  alldetails :: "bool option"
  nodelimit :: "int option"
  typesFirst :: "error + ObjectType list option"
  typesMiddle :: "error + ObjectType list option"
  typesLast :: "error + ObjectType list option"

text \<open>Lines 91-97: "Default to all edges if none are specified".\<close>

definition defaultEdges :: "Engine \<Rightarrow> AnalyzeOptions \<Rightarrow> AnalyzeOptions" where
  "defaultEdges E aoo =
     (if EdgesFirst aoo = {} \<and> EdgesMiddle aoo = {} \<and> EdgesLast aoo = {}
      then aoo\<lparr>EdgesFirst := AllEdgesBitmap E, EdgesMiddle := AllEdgesBitmap E,
               EdgesLast := AllEdgesBitmap E\<rparr>
      else aoo)"

definition ParseQueryFromPOST :: "Engine \<Rightarrow> PostedQuery \<Rightarrow> error + AnalyzeOptions" where
  "ParseQueryFromPOST E q =
     (case definitionError q of
        Some e \<Rightarrow> Inl e
      | None \<Rightarrow>
     (case analysisOptions q of
        Inl e \<Rightarrow> Inl e
      | Inr aoo \<Rightarrow>
     (case bindError q of
        Some e \<Rightarrow> Inl e
      | None \<Rightarrow>
     (case typesFirst q of
        Inl e \<Rightarrow> Inl e
      | Inr tyf \<Rightarrow>
     (case typesMiddle q of
        Inl e \<Rightarrow> Inl e
      | Inr tym \<Rightarrow>
     (case typesLast q of
        Inl e \<Rightarrow> Inl e
      | Inr tyl \<Rightarrow>
          Inr ((defaultEdges E
                  ((case alldetails q of None \<Rightarrow> aoo | Some b \<Rightarrow> aoo\<lparr>AllDetails := b\<rparr>)
                     \<lparr>NodeLimit := (case nodelimit q of None \<Rightarrow> NodeLimit aoo | Some n \<Rightarrow> n)\<rparr>))
                 \<lparr>ObjectTypesFirst := tyf, ObjectTypesMiddle := tym, ObjectTypesLast := tyl\<rparr>)))))))"

section \<open>Scenarios\<close>

text \<open>
  Concrete stores for the scenarios below. \<open>listStore es prob targets universe\<close> is a store
  whose edges are the labelled pairs \<open>es\<close>, in which the kind \<open>k\<close> has probability
  \<open>prob k\<close> on every pair, the first filter selects \<open>targets\<close>, every object has type 0
  and the null SID, no object has an integer attribute, and \<open>universe\<close> is the set of
  registered kinds, of which kind 0 is \<^verbatim>\<open>MemberOfGroup\<close>.
\<close>

definition listStore ::
  "((Object \<times> Object) \<times> EdgeBitmap) list \<Rightarrow> (Edge \<Rightarrow> Probability) \<Rightarrow> Object list \<Rightarrow> EdgeBitmap \<Rightarrow> Engine" where
  "listStore es prob targets universe =
     \<lparr>objType = (\<lambda>_. 0), objSID = (\<lambda>_. []),
      objEdges = (\<lambda>d n. if d = In
                         then map (\<lambda>e. (fst (fst e), snd e)) (filter (\<lambda>e. snd (fst e) = n) es)
                         else map (\<lambda>e. (snd (fst e), snd e)) (filter (\<lambda>e. fst (fst e) = n) es)),
      attrInt = (\<lambda>_ _. None), edgeProbability = (\<lambda>k _ _. prob k),
      queryExecute = (\<lambda>_. targets), SortBy = None, EdgeMemberOfGroup = 0,
      AllEdgesBitmap = universe\<rparr>"

text \<open>The state in which \<^verbatim>\<open>Analyze\<close> leaves the expansion loop (line 353).\<close>

definition expansion :: "Engine \<Rightarrow> AnalyzeOptions \<Rightarrow> (error + Graph \<times> ExtraInfo) option" where
  "expansion E opts =
     expandRounds E opts 1 (EdgesFirst opts) (ObjectTypesFirst opts)
       (fst (seed E opts)) (snd (seed E opts))"

text \<open>The chain A \<rightarrow> B \<rightarrow> C \<rightarrow> T with A = 0, B = 1, C = 2, T = 3 and one kind of probability 100.\<close>

definition chainStore :: Engine where
  "chainStore = listStore [((0, 1), {0}), ((1, 2), {0}), ((2, 3), {0})] (\<lambda>k. 100) [3] {0}"

definition chainOptions :: AnalyzeOptions where
  "chainOptions = (NewAnalyzeObjectsOptions chainStore)\<lparr>MaxDepth := 2\<rparr>"

text \<open>
  Target 0 with the predecessors 1 and 2, which share the predecessor 3: the pair (3, 1)
  has probability 100 and the pair (3, 2) probability 50.
\<close>

definition sharedStore :: Engine where
  "sharedStore =
     listStore [((1, 0), {0}), ((2, 0), {0}), ((3, 1), {0}), ((3, 2), {1})]
       (\<lambda>k. if k = 0 then 100 else 50) [0] {0, 1}"

definition sharedOptions :: AnalyzeOptions where
  "sharedOptions = NewAnalyzeObjectsOptions sharedStore"

text \<open>Target 0 and object 1 with an edge in each direction, and a backlink window of 2.\<close>

definition cycleStore :: Engine where
  "cycleStore = listStore [((1, 0), {0}), ((0, 1), {0})] (\<lambda>k. 100) [0] {0}"

definition cycleOptions :: AnalyzeOptions where
  "cycleOptions = (NewAnalyzeObjectsOptions cycleStore)\<lparr>Backlinks := 2\<rparr>"

text \<open>
  Target 0 with five group-membership predecessors (1 to 5, kind 0) and ten others (6 to
  15, kind 1), under a limit of 6 outgoing connections; \<open>capStoreSorted\<close> also sets
  \<^verbatim>\<open>SortBy\<close> to an attribute whose value on object \<open>n\<close> is \<open>n\<close>.
\<close>

definition capStore :: Engine where
  "capStore =
     listStore (map (\<lambda>i. ((i, 0), {0})) [1, 2, 3, 4, 5] @
                map (\<lambda>i. ((i, 0), {1})) [6, 7, 8, 9, 10, 11, 12, 13, 14, 15])
       (\<lambda>k. 100) [0] {0, 1}"

definition capStoreSorted :: Engine where
  "capStoreSorted = capStore\<lparr>attrInt := (\<lambda>n a. Some (int n)), SortBy := Some 0\<rparr>"

definition capOptions :: AnalyzeOptions where
  "capOptions = (NewAnalyzeObjectsOptions capStore)\<lparr>MaxOutgoingConnections := 6\<rparr>"

text \<open>Target 1 with the predecessor 0 over kind 0, which the last policy does not allow.\<close>

definition trimStore :: Engine where
  "trimStore = listStore [((0, 1), {0})] (\<lambda>k. 100) [1] {0, 1}"

definition trimOptions :: AnalyzeOptions where
  "trimOptions =
     (NewAnalyzeObjectsOptions trimStore)\<lparr>EdgesFirst := {0}, EdgesMiddle := {0}, EdgesLast := {1}\<rparr>"

text \<open>A single target without edges, with a last policy that rejects it.\<close>

definition loneStore :: Engine where
  "loneStore = listStore [] (\<lambda>k. 100) [0] {0}"

definition loneOptions :: AnalyzeOptions where
  "loneOptions =
     (NewAnalyzeObjectsOptions loneStore)\<lparr>ObjectTypesLast := Some [7], FilterLast := Some (\<lambda>_. False)\<rparr>"

text \<open>
  The candidates of the target 0 in round 1 of the degree-cap scenario: the content of
  \<^verbatim>\<open>newconnectionsmap\<close> when line 275 is reached.
\<close>

definition capCandidates :: ConnectionsMap where
  "capCandidates =
     fst (fold (rangeEdge capStore capOptions (fst (seed capStore capOptions)) 1 {0, 1} None 0
                  \<lparr>CanExpand = 0, processRound = 1, accumulatedprobability = 1\<rparr>)
            (objEdges capStore In 0) ([], snd (seed capStore capOptions)))"

text \<open>
  The shared-predecessor scenario up to round 2, in which round 2 has processed the nodes
  \<open>ns\<close>, a prefix of the nodes 0, 1, 2 that the graph holds when that round starts.
\<close>

definition sharedRoundTwo :: "Object list \<Rightarrow> error + Graph \<times> ExtraInfo" where
  "sharedRoundTwo ns =
     (case processNodes sharedStore sharedOptions 1 {0, 1} None [0] (seed sharedStore sharedOptions) of
        Inl e \<Rightarrow> Inl e
      | Inr st \<Rightarrow> processNodes sharedStore sharedOptions 2 {0, 1} None ns st)"

text \<open>The chain under a budget of 2 nodes.\<close>

definition limitOptions :: AnalyzeOptions where
  "limitOptions = chainOptions\<lparr>NodeLimit := 2\<rparr>"

text \<open>The chain under a budget of 2 nodes and no bound on the depth.\<close>

definition unboundedOptions :: AnalyzeOptions where
  "unboundedOptions = (NewAnalyzeObjectsOptions chainStore)\<lparr>NodeLimit := 2\<rparr>"


text \<open>
  The targets 0 and 1 with the edge from 1 to 0, and a middle filter that rejects 1.
\<close>

definition filterStore :: Engine where
  "filterStore = listStore [((1, 0), {0})] (\<lambda>k. 100) [0, 1] {0}"

definition filterOptions :: AnalyzeOptions where
  "filterOptions = (NewAnalyzeObjectsOptions filterStore)\<lparr>FilterMiddle := Some (\<lambda>n. n \<noteq> 1)\<rparr>"

text \<open>
  The cycle of 0 and 1 with the default window of 0 backlinks, and the same cycle in which
  both objects carry the SID S-1-5-21-7.
\<close>

definition domainStore :: Engine where
  "domainStore = cycleStore\<lparr>objSID := (\<lambda>n. [1, 5, 21, 7])\<rparr>"

definition windowOptions :: AnalyzeOptions where
  "windowOptions = NewAnalyzeObjectsOptions cycleStore"

text \<open>The chain again, with the Everyone SID on C (2).\<close>

definition everyoneStore :: Engine where
  "everyoneStore = chainStore\<lparr>objSID := (\<lambda>n. if n = 2 then EveryoneSID else [])\<rparr>"

text \<open>A request whose query definition names no edge kind at all.\<close>

definition noEdgesQuery :: PostedQuery where
  "noEdgesQuery =
     \<lparr>definitionError = None,
      analysisOptions = Inr (chainOptions\<lparr>EdgesFirst := {}, EdgesMiddle := {}, EdgesLast := {}\<rparr>),
      bindError = None, alldetails = None, nodelimit = Some 100,
      typesFirst = Inr None, typesMiddle = Inr None, typesLast = Inr None\<rparr>"

section \<open>Rounding of the accumulated probability\<close>

text \<open>
  Single precision at work: 3/10 is not a \<^verbatim>\<open>float32\<close>, and a path over edges of
  probability 84 and 75 has the accumulated probability 0.63 in exact arithmetic but falls
  below a \<^verbatim>\<open>MinAccumulatedProbability\<close> of 63 in the arithmetic of the code.
\<close>

lemma round32_examples:
  "round32 (3 / 10) = 5033165 / 16777216"
  "accumulate (accumulate 1 84) 75 < div32 (float32 63) 100"
  "(1 :: rat) * 84 / 100 * 75 / 100 = 63 / 100"
  by code_simp+

section \<open>The backlink rule\<close>

text \<open>
  The words of the specification: a pair is a cross-domain SID match when both SIDs are
  non-null, SID component 2 is 21, and the two SIDs are equal.
\<close>

definition crossDomainSIDMatch :: "Engine \<Rightarrow> Object \<Rightarrow> Object \<Rightarrow> bool" where
  "crossDomainSIDMatch E n m =
     (\<not> IsNull (objSID E n) \<and> \<not> IsNull (objSID E m) \<and>
      Component (objSID E n) 2 = 21 \<and> Component (objSID E m) 2 = 21 \<and>
      objSID E n = objSID E m)"

text \<open>
  The callback on the pair of the node \<open>n\<close> that is being expanded and its neighbour \<open>m\<close>,
  whose edge kinds are \<open>eb\<close>. \<open>pairKey\<close> is the key under which lines 253-261 store the
  pair, \<open>pairProbability\<close> the value of \<^verbatim>\<open>maxprobability\<close> (lines 210-215),
  \<open>passesEdgeTests\<close> the four tests of lines 196-225 (chosen edge kind, object type, edge
  probability, accumulated probability) and \<open>middleRejects\<close> the test of line 245.
\<close>

definition pairKey :: "AnalyzeOptions \<Rightarrow> Object \<Rightarrow> Object \<Rightarrow> Object \<times> Object" where
  "pairKey opts n m = (if Direction opts = In then (m, n) else (n, m))"

definition pairProbability ::
  "Engine \<Rightarrow> AnalyzeOptions \<Rightarrow> EdgeBitmap \<Rightarrow> Object \<Rightarrow> Object \<Rightarrow> EdgeBitmap \<Rightarrow> Probability" where
  "pairProbability E opts de n m eb =
     (if Direction opts = In then MaxProbability E (eb \<inter> de) m n
      else MaxProbability E (eb \<inter> de) n m)"

definition passesEdgeTests ::
  "Engine \<Rightarrow> AnalyzeOptions \<Rightarrow> EdgeBitmap \<Rightarrow> ObjectType list option \<Rightarrow> Object \<Rightarrow> GraphNode \<Rightarrow>
   Object \<Rightarrow> EdgeBitmap \<Rightarrow> bool" where
  "passesEdgeTests E opts de dt n ei m eb =
     (eb \<inter> de \<noteq> {} \<and>
      (case dt of None \<Rightarrow> True | Some ts \<Rightarrow> objType E m \<in> set ts) \<and>
      MinEdgeProbability opts \<le> pairProbability E opts de n m eb \<and>
      accumulatedBound opts
        \<le> accumulate (accumulatedprobability ei) (pairProbability E opts de n m eb))"

definition middleRejects :: "AnalyzeOptions \<Rightarrow> Object \<Rightarrow> bool" where
  "middleRejects opts m = (case FilterMiddle opts of None \<Rightarrow> False | Some f \<Rightarrow> \<not> f m)"

lemma edgeVerdict_accept:
  "passesEdgeTests E opts de dt n ei m eb \<Longrightarrow> \<not> backlinkSkip E opts g x r n m \<Longrightarrow>
   \<not> middleRejects opts m \<Longrightarrow>
   edgeVerdict E opts g x r de dt n ei m eb = Accept (eb \<inter> de) (pairProbability E opts de n m eb)"
  by (auto simp: edgeVerdict_def passesEdgeTests_def middleRejects_def pairProbability_def Let_def
      split: option.splits)

lemma edgeVerdict_skip:
  "\<not> passesEdgeTests E opts de dt n ei m eb \<or> backlinkSkip E opts g x r n m \<or> middleRejects opts m \<Longrightarrow>
   edgeVerdict E opts g x r de dt n ei m eb \<noteq> Accept d p"
  by (auto simp: edgeVerdict_def passesEdgeTests_def middleRejects_def pairProbability_def Let_def
      split: option.splits if_splits)

lemma backlinkSkip_present:
  "HasNode g m \<Longrightarrow> map_of x m = Some sm \<Longrightarrow>
   backlinkSkip E opts g x r n m =
     (r > 1 \<and> wrap64 (processRound sm + Backlinks opts) \<le> r \<and> \<not> crossDomainSIDMatch E n m)"
  by (auto simp: backlinkSkip_def crossDomainSIDMatch_def)

text \<open>
  C5, as the code has it. In every round \<open>r\<close>, take a candidate pair \<open>(n, m)\<close> with \<open>m\<close> in
  the working graph, \<open>sm\<close> the state of \<open>m\<close>, and the pair not yet among the candidates
  \<open>ncm\<close> of \<open>n\<close>. The callback skips the pair (the pair is not among the candidates
  afterwards) if and only if the pair fails one of the four edge tests, or \<open>r > 1\<close>,
  \<open>sm.round + Backlinks \<le> r\<close> (the sum taken as Go takes it, in 64 bits) and the pair is not
  a cross-domain SID match, or \<^verbatim>\<open>FilterMiddle\<close> is set and rejects \<open>m\<close>. A skipped pair
  leaves the candidates and the states as they were; a pair that is not skipped is stored
  with its chosen edge kinds, and in every round but the first the state of \<open>m\<close> is
  replaced. A cross-domain match is therefore never skipped on account of the backlink
  window.
\<close>

theorem C5_backlink_rule:
  assumes "HasNode g m" and "map_of x m = Some sm" and "pairKey opts n m \<notin> fst ` set ncm"
  shows
    "((pairKey opts n m \<notin> fst ` set (fst (rangeEdge E opts g r de dt n ei (m, eb) (ncm, x)))) =
      (\<not> passesEdgeTests E opts de dt n ei m eb \<or>
       (r > 1 \<and> wrap64 (processRound sm + Backlinks opts) \<le> r \<and> \<not> crossDomainSIDMatch E n m) \<or>
       middleRejects opts m)) \<and>
     (pairKey opts n m \<notin> fst ` set (fst (rangeEdge E opts g r de dt n ei (m, eb) (ncm, x))) \<longrightarrow>
      rangeEdge E opts g r de dt n ei (m, eb) (ncm, x) = (ncm, x)) \<and>
     (pairKey opts n m \<in> fst ` set (fst (rangeEdge E opts g r de dt n ei (m, eb) (ncm, x))) \<longrightarrow>
      rangeEdge E opts g r de dt n ei (m, eb) (ncm, x) =
        (AList.update (pairKey opts n m) (eb \<inter> de) ncm,
         if r \<noteq> 1
         then AList.update m
                \<lparr>CanExpand = 0, processRound = r + 1,
                 accumulatedprobability =
                   accumulate (accumulatedprobability ei) (pairProbability E opts de n m eb)\<rparr> x
         else x))"
proof (cases "\<not> passesEdgeTests E opts de dt n ei m eb \<or> backlinkSkip E opts g x r n m \<or>
    middleRejects opts m")
  case True
  have "rangeEdge E opts g r de dt n ei (m, eb) (ncm, x) = (ncm, x)"
  proof (cases "edgeVerdict E opts g x r de dt n ei m eb")
    case (Accept d p)
    with edgeVerdict_skip [OF True, of d p] show ?thesis by simp
  qed (simp_all add: rangeEdge_def)
  with True assms(3) backlinkSkip_present [OF assms(1,2), of E opts r n]
  show ?thesis by simp
next
  case False
  then have v: "edgeVerdict E opts g x r de dt n ei m eb
      = Accept (eb \<inter> de) (pairProbability E opts de n m eb)"
    by (simp add: edgeVerdict_accept)
  have "rangeEdge E opts g r de dt n ei (m, eb) (ncm, x) =
        (AList.update (pairKey opts n m) (eb \<inter> de) ncm,
         if r \<noteq> 1
         then AList.update m
                \<lparr>CanExpand = 0, processRound = r + 1,
                 accumulatedprobability =
                   accumulate (accumulatedprobability ei) (pairProbability E opts de n m eb)\<rparr> x
         else x)"
    using assms(2) by (simp add: rangeEdge_def v pairKey_def)
  with False backlinkSkip_present [OF assms(1,2), of E opts r n]
  show ?thesis by (simp add: dom_update)
qed

text \<open>
  Round 2 of the cycle: the node 1 sees the target 0 again, which is in the graph with
  round 1. Under a window of 0 the pair is skipped and nothing changes. When both objects
  carry the same domain SID the pair is recorded in spite of the window, and the state of
  the target is replaced.
\<close>

theorem C5_backlink_rule_witness:
  "objEdges cycleStore In 1 = [(0, {0})] \<and>
   HasNode (NewGraph\<lparr>nodes := [0, 1], edges := [((1, 0), {0})]\<rparr>) 0 \<and>
   map_of [(0 :: Object, \<lparr>CanExpand = 0, processRound = 1, accumulatedprobability = 1\<rparr>),
           (1, \<lparr>CanExpand = 0, processRound = 2, accumulatedprobability = 1\<rparr>)] 0
     = Some \<lparr>CanExpand = 0, processRound = 1, accumulatedprobability = 1\<rparr> \<and>
   pairKey windowOptions 1 0 \<notin> fst ` set [] \<and>
   passesEdgeTests cycleStore windowOptions {0} None 1
     \<lparr>CanExpand = 0, processRound = 2, accumulatedprobability = 1\<rparr> 0 {0} \<and>
   \<not> middleRejects windowOptions 0 \<and>
   (2 :: int) > 1 \<and> wrap64 (1 + Backlinks windowOptions) \<le> 2 \<and>
   \<not> crossDomainSIDMatch cycleStore 1 0 \<and>
   rangeEdge cycleStore windowOptions (NewGraph\<lparr>nodes := [0, 1], edges := [((1, 0), {0})]\<rparr>) 2 {0} None 1
     \<lparr>CanExpand = 0, processRound = 2, accumulatedprobability = 1\<rparr> (0, {0})
     ([], [(0, \<lparr>CanExpand = 0, processRound = 1, accumulatedprobability = 1\<rparr>),
           (1, \<lparr>CanExpand = 0, processRound = 2, accumulatedprobability = 1\<rparr>)])
   = ([], [(0, \<lparr>CanExpand = 0, processRound = 1, accumulatedprobability = 1\<rparr>),
           (1, \<lparr>CanExpand = 0, processRound = 2, accumulatedprobability = 1\<rparr>)]) \<and>
   crossDomainSIDMatch domainStore 1 0 \<and>
   rangeEdge domainStore windowOptions (NewGraph\<lparr>nodes := [0, 1], edges := [((1, 0), {0})]\<rparr>) 2 {0} None 1
     \<lparr>CanExpand = 0, processRound = 2, accumulatedprobability = 1\<rparr> (0, {0})
     ([], [(0, \<lparr>CanExpand = 0, processRound = 1, accumulatedprobability = 1\<rparr>),
           (1, \<lparr>CanExpand = 0, processRound = 2, accumulatedprobability = 1\<rparr>)])
   = ([((0, 1), {0})],
      [(0, \<lparr>CanExpand = 0, processRound = 3, accumulatedprobability = 1\<rparr>),
       (1, \<lparr>CanExpand = 0, processRound = 2, accumulatedprobability = 1\<rparr>)])"
proof -
  let ?g = "NewGraph\<lparr>nodes := [0, 1], edges := [((1, 0), {0})]\<rparr>"
  let ?s0 = "\<lparr>CanExpand = 0, processRound = 1, accumulatedprobability = 1\<rparr>"
  let ?s1 = "\<lparr>CanExpand = 0, processRound = 2, accumulatedprobability = 1\<rparr>"
  let ?x = "[(0 :: nat, ?s0), (1, ?s1)]"
  have e: "objEdges cycleStore In 1 = [(0, {0})]" by (simp add: cycleStore_def listStore_def)
  have h1: "HasNode ?g 0" by (simp add: HasNode_def NewGraph_def)
  have h2: "map_of ?x 0 = Some ?s0" by simp
  have k: "pairKey windowOptions 1 0 = (0, 1)"
    by (simp add: pairKey_def windowOptions_def NewAnalyzeObjectsOptions_def)
  have h3: "pairKey windowOptions 1 0 \<notin> fst ` set []" by simp
  have pc: "passesEdgeTests cycleStore windowOptions {0} None 1 ?s1 0 {0}" by code_simp
  have pd: "passesEdgeTests domainStore windowOptions {0} None 1 ?s1 0 {0}" by code_simp
  have pp: "pairProbability domainStore windowOptions {0} 1 0 {0} = 100" by code_simp
  have ac: "accumulate 1 100 = 1" by code_simp
  have m: "\<not> middleRejects windowOptions 0"
    by (simp add: middleRejects_def windowOptions_def NewAnalyzeObjectsOptions_def)
  have b: "Backlinks windowOptions = 0" by (simp add: windowOptions_def NewAnalyzeObjectsOptions_def)
  have w: "wrap64 (1 + Backlinks windowOptions) \<le> 2" by (simp add: b wrap64_def)
  have nc: "\<not> crossDomainSIDMatch cycleStore 1 0"
    by (simp add: crossDomainSIDMatch_def cycleStore_def listStore_def IsNull_def)
  have cd: "crossDomainSIDMatch domainStore 1 0"
    by (simp add: crossDomainSIDMatch_def domainStore_def IsNull_def Component_def)
  note c = C5_backlink_rule [OF h1 h2 h3, of cycleStore 2 "{0}" None ?s1 "{0}"]
  note d = C5_backlink_rule [OF h1 h2 h3, of domainStore 2 "{0}" None ?s1 "{0}"]
  from c [THEN conjunct1] w nc
  have "pairKey windowOptions 1 0 \<notin> fst ` set (fst (rangeEdge cycleStore windowOptions ?g 2 {0} None 1
      ?s1 (0, {0}) ([], ?x)))" by simp
  with c [THEN conjunct2, THEN conjunct1]
  have r1: "rangeEdge cycleStore windowOptions ?g 2 {0} None 1 ?s1 (0, {0}) ([], ?x) = ([], ?x)"
    by simp
  from d [THEN conjunct1] pd m cd
  have "pairKey windowOptions 1 0 \<in> fst ` set (fst (rangeEdge domainStore windowOptions ?g 2 {0} None 1
      ?s1 (0, {0}) ([], ?x)))" by simp
  with d [THEN conjunct2, THEN conjunct2]
  have "rangeEdge domainStore windowOptions ?g 2 {0} None 1 ?s1 (0, {0}) ([], ?x)
      = (AList.update (pairKey windowOptions 1 0) ({0} \<inter> {0}) [],
         if (2 :: int) \<noteq> 1
         then AList.update 0
                \<lparr>CanExpand = 0, processRound = 2 + 1,
                 accumulatedprobability =
                   accumulate (accumulatedprobability ?s1)
                     (pairProbability domainStore windowOptions {0} 1 0 {0})\<rparr> ?x
         else ?x)"
    by (rule mp)
  then have r2: "rangeEdge domainStore windowOptions ?g 2 {0} None 1 ?s1 (0, {0}) ([], ?x)
      = ([((0, 1), {0})], [(0, \<lparr>CanExpand = 0, processRound = 3, accumulatedprobability = 1\<rparr>), (1, ?s1)])"
    unfolding k pp by (simp add: ac)
  have two: "(2 :: int) > 1" by simp
  show ?thesis by (intro conjI) (rule e h1 h2 h3 pc m two w nc r1 cd r2)+
qed

text \<open>
  The claim as stated fails where another test skips the pair: in round 1 the target 0 sees
  the target 1, which is in the graph; the middle filter rejects 1, the callback records
  nothing, and the expansion ends without an edge, although \<open>r > 1\<close> does not hold.
\<close>

theorem C5_counterexample:
  "objEdges filterStore In 0 = [(1, {0})] \<and>
   HasNode (fst (seed filterStore filterOptions)) 1 \<and>
   map_option processRound (map_of (snd (seed filterStore filterOptions)) 1) = Some 1 \<and>
   rangeEdge filterStore filterOptions (fst (seed filterStore filterOptions)) 1
     (EdgesFirst filterOptions) (ObjectTypesFirst filterOptions) 0
     \<lparr>CanExpand = 0, processRound = 1, accumulatedprobability = 1\<rparr> (1, {0})
     ([], snd (seed filterStore filterOptions))
   = ([], snd (seed filterStore filterOptions)) \<and>
   map_option (map_sum id (\<lambda>st. (nodes (fst st), edges (fst st))))
     (expansion filterStore filterOptions) = Some (Inr ([0, 1], []))"
  by code_simp

section \<open>The linear chain\<close>

text \<open>
  C8. For the chain A \<rightarrow> B \<rightarrow> C \<rightarrow> T with one kind of probability 100, the target T,
  \<open>Direction = In\<close>, \<open>MaxDepth = 2\<close> and the all-edges policy, \<^verbatim>\<open>Analyze\<close> returns the nodes
  T, C and B (A is absent) and the edges C \<rightarrow> T and B \<rightarrow> C, and the expansion leaves the
  rounds T = 1, C = 2, B = 3.
\<close>

theorem C8_linear_chain:
  "map_option (map_sum id (\<lambda>r. (set (nodes (Graph (fst r))), set (map fst (edges (Graph (fst r)))))))
     (Analyze chainStore chainOptions) = Some (Inr ({3, 2, 1}, {(2, 3), (1, 2)})) \<and>
   map_option (map_sum id (\<lambda>st. map (\<lambda>x. (fst x, processRound (snd x))) (snd st)))
     (expansion chainStore chainOptions) = Some (Inr [(3, 1), (2, 2), (1, 3)])"
  by code_simp

section \<open>Defaulting of the edge policies\<close>

text \<open>
  C9. When \<^verbatim>\<open>ParseQueryFromPOST\<close> returns options, they come from the options \<open>aoo\<close> of the
  query definition like this: if \<open>EdgesFirst\<close>, \<open>EdgesMiddle\<close> and \<open>EdgesLast\<close> of \<open>aoo\<close>
  are all empty, all three are set to \<open>AllEdgesBitmap\<close>; if one of them is not empty, none
  of the three is changed.
\<close>

theorem C9_default_edges:
  assumes "ParseQueryFromPOST E q = Inr aoo'"
  shows "\<exists>aoo. analysisOptions q = Inr aoo \<and>
           (if EdgesFirst aoo = {} \<and> EdgesMiddle aoo = {} \<and> EdgesLast aoo = {}
            then EdgesFirst aoo' = AllEdgesBitmap E \<and> EdgesMiddle aoo' = AllEdgesBitmap E \<and>
                 EdgesLast aoo' = AllEdgesBitmap E
            else EdgesFirst aoo' = EdgesFirst aoo \<and> EdgesMiddle aoo' = EdgesMiddle aoo \<and>
                 EdgesLast aoo' = EdgesLast aoo)"
  using assms
  by (auto simp: ParseQueryFromPOST_def defaultEdges_def split: option.splits sum.splits if_splits)

text \<open>
  A request that names no edge kind gets the universe in all three policies.
\<close>

theorem C9_default_edges_witness:
  "\<exists>aoo'. ParseQueryFromPOST chainStore noEdgesQuery = Inr aoo' \<and>
     analysisOptions noEdgesQuery
       = Inr (chainOptions\<lparr>EdgesFirst := {}, EdgesMiddle := {}, EdgesLast := {}\<rparr>) \<and>
     EdgesFirst aoo' = AllEdgesBitmap chainStore \<and> EdgesMiddle aoo' = AllEdgesBitmap chainStore \<and>
     EdgesLast aoo' = AllEdgesBitmap chainStore"
proof -
  obtain aoo' where h: "ParseQueryFromPOST chainStore noEdgesQuery = Inr aoo'"
    by (simp add: ParseQueryFromPOST_def noEdgesQuery_def)
  have a: "analysisOptions noEdgesQuery
       = Inr (chainOptions\<lparr>EdgesFirst := {}, EdgesMiddle := {}, EdgesLast := {}\<rparr>)"
    by (simp add: noEdgesQuery_def)
  from C9_default_edges [OF h] a h show ?thesis by auto
qed

section \<open>Facts about the working graph\<close>

lemma nodes_AddNode: "set (nodes (AddNode g n)) = insert n (set (nodes g))"
  by (auto simp: AddNode_def)

lemma AddNode_present: "n \<in> set (nodes g) \<Longrightarrow> AddNode g n = g"
  by (simp add: AddNode_def)

lemma nodes_SetNodeData_present: "n \<in> set (nodes g) \<Longrightarrow> nodes (SetNodeData g n k v) = nodes g"
  by (simp add: SetNodeData_def AddNode_def Let_def)

lemma set_nodes_SetNodeData: "set (nodes (SetNodeData g n k v)) = insert n (set (nodes g))"
  by (auto simp: SetNodeData_def AddNode_def Let_def)

lemma edges_SetNodeData: "edges (SetNodeData g n k v) = edges g"
  by (simp add: SetNodeData_def AddNode_def Let_def)

lemma fold_mark_nodes:
  "set ns \<subseteq> set (nodes g) \<Longrightarrow>
   nodes (fold (\<lambda>n h. SetNodeData h n k v) ns g) = nodes g"
proof (induction ns arbitrary: g)
  case Nil
  show ?case by simp
next
  case (Cons n ns)
  then have "nodes (SetNodeData g n k v) = nodes g" by (simp add: nodes_SetNodeData_present)
  with Cons.IH [of "SetNodeData g n k v"] Cons.prems show ?case by simp
qed

lemma nodes_markSources: "nodes (markSources opts g) = nodes g"
  by (simp add: markSources_def fold_mark_nodes outerNodes_subset)

lemma Order_trimmed: "Order (trimmed E opts g) = Order (trimLoop E opts g)"
  by (simp add: trimmed_def Order_def nodes_markSources)

section \<open>The outer-layer trim at its fixpoint\<close>







section \<open>Nodes without edges in the trim\<close>

lemma Islands_DeleteNode:
  "n \<in> set (Islands g) \<Longrightarrow> x \<noteq> n \<Longrightarrow> n \<in> set (Islands (DeleteNode g x))"
  by (auto simp: Islands_def DeleteNode_def)

lemma fold_trimEdge_island:
  "n \<in> set (Islands (fst st)) \<Longrightarrow> \<forall>e \<in> set es. endNode opts e \<noteq> n \<Longrightarrow>
   n \<in> set (Islands (fst (fold (trimEdge E opts outer) es st)))"
proof (induction es arbitrary: st)
  case Nil
  then show ?case by simp
next
  case (Cons x es)
  from Cons.prems have "n \<in> set (Islands (fst (trimEdge E opts outer x st)))"
    by (auto simp: trimEdge_def Islands_DeleteNode)
  with Cons.IH [of "trimEdge E opts outer x st"] Cons.prems(2) show ?case by simp
qed

lemma trimPass_island:
  assumes "n \<in> set (Islands g)"
  shows "n \<in> set (Islands (fst (trimPass E opts g)))"
proof -
  from assms have "\<forall>e \<in> set (edges g). endNode opts e \<noteq> n"
    by (auto simp: Islands_def endNode_def)
  with fold_trimEdge_island [of n "(g, 0)" "edges g" opts E "outerNodes opts g"] assms
  show ?thesis by (simp add: trimPass_def)
qed

lemma trimLoop_island:
  "n \<in> set (Islands g) \<Longrightarrow> n \<in> set (Islands (trimLoop E opts g))"
proof (induction E opts g rule: trimLoop.induct)
  case (1 E opts g)
  from "1.prems" have i: "n \<in> set (Islands (fst (trimPass E opts g)))" by (rule trimPass_island)
  show ?case
  proof (cases "snd (trimPass E opts g) = 0")
    case True
    with i show ?thesis by (simp add: trimLoop_stop)
  next
    case False
    with "1.IH" [OF False i] show ?thesis by (simp add: trimLoop_step)
  qed
qed

lemma nodes_publishCanExpand: "nodes (publishCanExpand extrainfo g) = nodes g"
  unfolding publishCanExpand_def
proof (induction extrainfo arbitrary: g)
  case Nil
  show ?case by simp
next
  case (Cons x xs)
  let ?g1 = "if HasNode g (fst x) \<and> CanExpand (snd x) > 0
             then SetNodeData g (fst x) ''canexpand'' (IntValue (CanExpand (snd x))) else g"
  have "nodes ?g1 = nodes g" by (simp add: HasNode_def nodes_SetNodeData_present)
  with Cons.IH [of ?g1] show ?case by simp
qed

lemma nodes_finish: "\<not> PruneIslands opts \<Longrightarrow> nodes (finish opts extrainfo g) = nodes g"
  by (simp add: finish_def nodes_publishCanExpand nodes_markSources pruneIslands_def)

text \<open>
  C10. A node that has no incident edge when the trim starts is still a node when the
  trim loop has ended, whatever \<open>ObjectTypesLast\<close> and \<open>FilterLast\<close> say of it. When
  neither the island prune nor the node-budget prune runs, the analysis returns and the
  node is in the resulting graph.
\<close>

theorem C10_isolated_node_survives_trim:
  assumes "n \<in> set (Islands g)"
  shows "n \<in> set (nodes (trimLoop E opts g)) \<and>
         (\<not> PruneIslands opts \<and>
          \<not> (NodeLimit opts > 0 \<and> wrap64 (Order (trimmed E opts g) - NodeLimit opts) > 0) \<longrightarrow>
          (\<exists>res w. postProcess E opts (g, extrainfo) = Inr (res, w) \<and>
                    n \<in> set (nodes (Graph res))))"
proof -
  from trimLoop_island [OF assms] have i: "n \<in> set (Islands (trimLoop E opts g))" .
  then have t: "n \<in> set (nodes (trimLoop E opts g))" by (simp add: Islands_def)
  then have m: "n \<in> set (nodes (trimmed E opts g))" by (simp add: trimmed_def nodes_markSources)
  show ?thesis
  proof (intro conjI impI)
    show "n \<in> set (nodes (trimLoop E opts g))" by (rule t)
  next
    assume a: "\<not> PruneIslands opts \<and>
          \<not> (NodeLimit opts > 0 \<and> wrap64 (Order (trimmed E opts g) - NodeLimit opts) > 0)"
    then have b: "budgetPrune opts extrainfo (trimmed E opts g) = Inr (trimmed E opts g, [])"
      by (auto simp: budgetPrune_def)
    from a have f: "nodes (finish opts extrainfo (trimmed E opts g)) = nodes (trimmed E opts g)"
      by (simp add: nodes_finish)
    show "\<exists>res w. postProcess E opts (g, extrainfo) = Inr (res, w) \<and> n \<in> set (nodes (Graph res))"
      using m by (simp add: postProcess_def b f)
  qed
qed

text \<open>The lone target that the last policy rejects is in the result.\<close>

theorem C10_isolated_node_survives_trim_witness:
  "0 \<in> set (Islands (fst (seed loneStore loneOptions))) \<and>
   0 \<in> set (nodes (trimLoop loneStore loneOptions (fst (seed loneStore loneOptions)))) \<and>
   \<not> PruneIslands loneOptions \<and> NodeLimit loneOptions = 0 \<and>
   (\<exists>res w. postProcess loneStore loneOptions (seed loneStore loneOptions) = Inr (res, w) \<and>
             0 \<in> set (nodes (Graph res)))"
proof -
  have h: "0 \<in> set (Islands (fst (seed loneStore loneOptions)))" by code_simp
  have p: "\<not> PruneIslands loneOptions" and l: "NodeLimit loneOptions = 0"
    by (simp_all add: loneOptions_def NewAnalyzeObjectsOptions_def)
  from C10_isolated_node_survives_trim [OF h, of loneStore loneOptions "snd (seed loneStore loneOptions)"]
    h p l show ?thesis by simp
qed

section \<open>The node-budget prune\<close>


lemma length_removeAll_distinct:
  "distinct xs \<Longrightarrow> x \<in> set xs \<Longrightarrow> int (length (removeAll x xs)) = int (length xs) - 1"
  by (induction xs) auto

lemma Order_DeleteNode:
  "distinct (nodes g) \<Longrightarrow> n \<in> set (nodes g) \<Longrightarrow> Order (DeleteNode g n) = Order g - 1"
  by (simp add: Order_def nodes_DeleteNode length_removeAll_distinct)

lemma pruneOuter_order:
  "distinct (nodes g) \<Longrightarrow> distinct ns \<Longrightarrow> set ns \<subseteq> set (nodes g) \<Longrightarrow> 0 < l \<Longrightarrow>
   pruneOuter extrainfo maxround ns (g, l, r) = (g', l', r') \<Longrightarrow>
   Order g' - l' = Order g - l \<and> 0 \<le> l' \<and> distinct (nodes g') \<and> set (nodes g') \<subseteq> set (nodes g)"
proof (induction ns arbitrary: g l r)
  case Nil
  then show ?case by simp
next
  case (Cons n ns)
  show ?case
  proof (cases "atMaxRound extrainfo maxround n")
    case True
    let ?g1 = "DeleteNode g n"
    from Cons.prems have n: "n \<in> set (nodes g)" by simp
    have o: "Order ?g1 = Order g - 1" using Cons.prems(1) n by (rule Order_DeleteNode)
    have d: "distinct (nodes ?g1)" using Cons.prems(1) by (simp add: nodes_DeleteNode distinct_removeAll)
    have s: "set (nodes ?g1) \<subseteq> set (nodes g)" by (auto simp: nodes_DeleteNode)
    show ?thesis
    proof (cases "l - 1 = 0")
      case stop: True
      with True Cons.prems(5) have "g' = ?g1" "l' = l - 1" by auto
      with o d s stop show ?thesis by simp
    next
      case False
      with True Cons.prems(5)
      have p: "pruneOuter extrainfo maxround ns (?g1, l - 1, r + 1) = (g', l', r')" by simp
      from Cons.prems(2,3) have "set ns \<subseteq> set (nodes ?g1)" by (auto simp: nodes_DeleteNode)
      moreover from Cons.prems(2) have "distinct ns" by simp
      moreover from False Cons.prems(4) have "0 < l - 1" by simp
      ultimately have "Order g' - l' = Order ?g1 - (l - 1) \<and> 0 \<le> l' \<and> distinct (nodes g') \<and>
          set (nodes g') \<subseteq> set (nodes ?g1)"
        using Cons.IH [OF d _ _ _ p] by blast
      with o s show ?thesis by auto
    qed
  next
    case False
    with Cons.prems(4,5) have p: "pruneOuter extrainfo maxround ns (g, l, r) = (g', l', r')" by simp
    from Cons.prems have "distinct ns" "set ns \<subseteq> set (nodes g)" by auto
    from Cons.IH [OF Cons.prems(1) this Cons.prems(4) p] show ?thesis .
  qed
qed

lemma distinct_outerNodes: "distinct (nodes g) \<Longrightarrow> distinct (outerNodes opts g)"
  by (simp add: outerNodes_def StartingNodes_def EndingNodes_def)

lemma budgetPass_order:
  assumes "distinct (nodes g)" and "0 < l"
  shows "Order (fst (budgetPass opts extrainfo g l)) - fst (snd (budgetPass opts extrainfo g l)) = Order g - l"
    and "0 \<le> fst (snd (budgetPass opts extrainfo g l))"
    and "distinct (nodes (fst (budgetPass opts extrainfo g l)))"
    and "set (nodes (fst (budgetPass opts extrainfo g l))) \<subseteq> set (nodes g)"
proof -
  obtain g' l' r' where p: "pruneOuter extrainfo (maxRound extrainfo (outerNodes opts g))
      (outerNodes opts g) (g, l, 0) = (g', l', r')"
    by (cases "pruneOuter extrainfo (maxRound extrainfo (outerNodes opts g)) (outerNodes opts g) (g, l, 0)") auto
  from pruneOuter_order [OF assms(1) distinct_outerNodes [OF assms(1)] outerNodes_subset assms(2) p]
  show "Order (fst (budgetPass opts extrainfo g l)) - fst (snd (budgetPass opts extrainfo g l)) = Order g - l"
    and "0 \<le> fst (snd (budgetPass opts extrainfo g l))"
    and "distinct (nodes (fst (budgetPass opts extrainfo g l)))"
    and "set (nodes (fst (budgetPass opts extrainfo g l))) \<subseteq> set (nodes g)"
    by (simp_all add: budgetPass_def p)
qed

lemma budgetLoop_stop: "\<not> 0 < l \<Longrightarrow> budgetLoop opts extrainfo g l = Inr (g, [])"
  by (subst budgetLoop.simps) simp

lemma budgetLoop_warn:
  "0 < l \<Longrightarrow> \<not> list_ex (\<lambda>n. map_of extrainfo n = None) (outerNodes opts g) \<Longrightarrow>
   snd (snd (budgetPass opts extrainfo g l)) = 0 \<and> 0 < fst (snd (budgetPass opts extrainfo g l)) \<Longrightarrow>
   budgetLoop opts extrainfo g l
     = Inr (fst (budgetPass opts extrainfo g l),
            [NoOuterNodesToRemove (fst (snd (budgetPass opts extrainfo g l)))])"
  by (subst budgetLoop.simps) simp

lemma budgetLoop_step:
  "0 < l \<Longrightarrow> \<not> list_ex (\<lambda>n. map_of extrainfo n = None) (outerNodes opts g) \<Longrightarrow>
   \<not> (snd (snd (budgetPass opts extrainfo g l)) = 0 \<and> 0 < fst (snd (budgetPass opts extrainfo g l))) \<Longrightarrow>
   budgetLoop opts extrainfo g l
     = budgetLoop opts extrainfo (fst (budgetPass opts extrainfo g l))
         (fst (snd (budgetPass opts extrainfo g l)))"
  by (subst budgetLoop.simps) (simp only: if_True if_False)

lemma budgetLoop_result:
  "distinct (nodes g) \<Longrightarrow> \<forall>n \<in> set (nodes g). map_of extrainfo n \<noteq> None \<Longrightarrow> 0 \<le> l \<Longrightarrow>
   \<exists>g' w. budgetLoop opts extrainfo g l = Inr (g', w) \<and>
     (Order g' = Order g - l \<and> w = [] \<or> (\<exists>k. 0 < k \<and> w = [NoOuterNodesToRemove k]))"
proof (induction opts extrainfo g l rule: budgetLoop.induct)
  case (1 opts extrainfo g l)
  show ?case
  proof (cases "0 < l")
    case False
    with "1.prems"(3) show ?thesis by (simp add: budgetLoop_stop)
  next
    case True
    let ?p = "budgetPass opts extrainfo g l"
    have nonil: "\<not> list_ex (\<lambda>n. map_of extrainfo n = None) (outerNodes opts g)"
      using "1.prems"(2) outerNodes_subset [of opts g] by (auto simp: list_ex_iff)
    note bp = budgetPass_order [OF "1.prems"(1) True, of opts extrainfo]
    show ?thesis
    proof (cases "snd (snd ?p) = 0 \<and> 0 < fst (snd ?p)")
      case warn: True
      from budgetLoop_warn [OF True nonil warn] warn show ?thesis by auto
    next
      case False
      have inv: "\<forall>n \<in> set (nodes (fst ?p)). map_of extrainfo n \<noteq> None"
        using bp(4) "1.prems"(2) by blast
      from "1.IH" [OF True nonil False bp(3) inv bp(2)]
      obtain g' w where r: "budgetLoop opts extrainfo (fst ?p) (fst (snd ?p)) = Inr (g', w)"
        and c: "Order g' = Order (fst ?p) - fst (snd ?p) \<and> w = [] \<or> (\<exists>k. 0 < k \<and> w = [NoOuterNodesToRemove k])"
        by blast
      from r have "budgetLoop opts extrainfo g l = Inr (g', w)"
        by (simp add: budgetLoop_step [OF True nonil False])
      with c bp(1) show ?thesis by auto
    qed
  qed
qed






text \<open>
  \<open>pruneRun opts extrainfo (g, l) (g', l')\<close>: the loop of line 449 gets from the graph \<open>g\<close>
  with \<open>l\<close> nodes left to remove to the graph \<open>g'\<close> with \<open>l'\<close> left by a sequence of
  passes, each of which is entered with something left to remove and deletes at least one
  node.
\<close>

inductive pruneRun :: "AnalyzeOptions \<Rightarrow> ExtraInfo \<Rightarrow> Graph \<times> int \<Rightarrow> Graph \<times> int \<Rightarrow> bool"
  for opts :: AnalyzeOptions and extrainfo :: ExtraInfo where
  pruneRun_done: "pruneRun opts extrainfo st st"
| pruneRun_pass:
    "0 < lefttoremove \<Longrightarrow> 0 < snd (snd (budgetPass opts extrainfo g lefttoremove)) \<Longrightarrow>
     pruneRun opts extrainfo
       (fst (budgetPass opts extrainfo g lefttoremove),
        fst (snd (budgetPass opts extrainfo g lefttoremove))) st' \<Longrightarrow>
     pruneRun opts extrainfo (g, lefttoremove) st'"






section \<open>The degree cap\<close>

lemma addUpToLimit_stop:
  "\<not> i + added < maxout \<Longrightarrow> addUpToLimit maxout added i es st = st"
  by (cases es; cases st) simp_all

lemma addEdges_snoc:
  "addEdges g (es @ [e]) = AddEdge (addEdges g es) (fst (fst e)) (snd (fst e)) (snd e)"
  by (simp add: addEdges_def)

lemma sortNotAdded_set: "set (sortNotAdded E opts a es) = set es"
  by (simp add: sortNotAdded_def)

lemma sortNotAdded_length: "length (sortNotAdded E opts a es) = length es"
  by (simp add: sortNotAdded_def)

lemma sortNotAdded_head:
  assumes "sortNotAdded E opts a es = x # xs" and "y \<in> set es"
  shows "sortKey E opts a y \<le> sortKey E opts a x"
proof -
  have "sorted (map (\<lambda>e. - sortKey E opts a e) (sortNotAdded E opts a es))"
    by (simp add: sortNotAdded_def)
  with assms(1) have "\<forall>z \<in> set xs. - sortKey E opts a x \<le> - sortKey E opts a z" by simp
  moreover from assms have "y = x \<or> y \<in> set xs"
    using sortNotAdded_set [of E opts a es] by auto
  ultimately show ?thesis by auto
qed

text \<open>
  C2, as the code has it by design. For a node with 5 group-membership candidates and 10
  other candidates under \<open>MaxOutgoingConnections = 6\<close>: the 5 group edges are committed;
  if \<open>SortBy\<close> is set, exactly one more candidate is committed, a non-group candidate
  whose \<open>SortBy\<close> value is maximal among the non-group candidates; if \<open>SortBy\<close> is not
  set, no other candidate is committed (lines 305-339 run only when \<open>SortBy\<close> is set).
\<close>

theorem C2_degree_cap_commits:
  assumes "MaxOutgoingConnections opts = 6"
    and "length (filter (isGroupEdge E) ncm) = 5"
    and "length (filter (\<lambda>e. \<not> isGroupEdge E e) ncm) = 10"
  shows "(SortBy E = None \<longrightarrow>
            fst (commitConnections E opts g ncm) = addEdges g (filter (isGroupEdge E) ncm)) \<and>
         (\<forall>a. SortBy E = Some a \<longrightarrow>
            (\<exists>x \<in> set ncm. \<not> isGroupEdge E x \<and>
               (\<forall>y \<in> set ncm. \<not> isGroupEdge E y \<longrightarrow> sortKey E opts a y \<le> sortKey E opts a x) \<and>
               fst (commitConnections E opts g ncm)
                 = addEdges g (filter (isGroupEdge E) ncm @ [x])))"
proof -
  let ?grp = "filter (isGroupEdge E) ncm"
  let ?rest = "filter (\<lambda>e. \<not> isGroupEdge E e) ncm"
  have len: "length ncm = 15"
    using sum_length_filter_compl [of "isGroupEdge E" ncm] assms(2,3) by simp
  have none: "SortBy E = None \<Longrightarrow> fst (commitConnections E opts g ncm) = addEdges g ?grp"
    by (simp add: commitConnections_def assms len Let_def)
  have some: "\<exists>x \<in> set ncm. \<not> isGroupEdge E x \<and>
               (\<forall>y \<in> set ncm. \<not> isGroupEdge E y \<longrightarrow> sortKey E opts a y \<le> sortKey E opts a x) \<and>
               fst (commitConnections E opts g ncm) = addEdges g (?grp @ [x])"
    if s: "SortBy E = Some a" for a
  proof -
    have "length (sortNotAdded E opts a ?rest) = 10"
      by (simp add: sortNotAdded_length assms(3))
    then obtain x xs where sx: "sortNotAdded E opts a ?rest = x # xs"
      by (cases "sortNotAdded E opts a ?rest") auto
    have xin: "x \<in> set ?rest" using sortNotAdded_set [of E opts a ?rest] sx by auto
    have top: "\<forall>y \<in> set ncm. \<not> isGroupEdge E y \<longrightarrow> sortKey E opts a y \<le> sortKey E opts a x"
      using sortNotAdded_head [OF sx] by auto
    have "addUpToLimit 6 5 0 (x # xs) (addEdges g ?grp, 0)
            = (AddEdge (addEdges g ?grp) (fst (fst x)) (snd (fst x)) (snd x), 1)"
      by (simp add: addUpToLimit_stop)
    then have "fst (commitConnections E opts g ncm) = addEdges g (?grp @ [x])"
      by (simp add: commitConnections_def assms len Let_def s sx addEdges_snoc)
    with xin top show ?thesis by auto
  qed
  from none some show ?thesis by blast
qed


theorem C2_degree_cap_commits_witness:
  "MaxOutgoingConnections capOptions = 6 \<and>
   length (filter (isGroupEdge capStore) capCandidates) = 5 \<and>
   length (filter (\<lambda>e. \<not> isGroupEdge capStore e) capCandidates) = 10 \<and>
   SortBy capStore = None \<and>
   fst (commitConnections capStore capOptions (fst (seed capStore capOptions)) capCandidates)
     = addEdges (fst (seed capStore capOptions)) (filter (isGroupEdge capStore) capCandidates)"
proof -
  have h1: "MaxOutgoingConnections capOptions = 6" by (simp add: capOptions_def)
  have h2: "length (filter (isGroupEdge capStore) capCandidates) = 5" by code_simp
  have h3: "length (filter (\<lambda>e. \<not> isGroupEdge capStore e) capCandidates) = 10" by code_simp
  have h4: "SortBy capStore = None" by (simp add: capStore_def listStore_def)
  from C2_degree_cap_commits [OF h1 h2 h3, of "fst (seed capStore capOptions)"] h1 h2 h3 h4
  show ?thesis by simp
qed

text \<open>
  The claim as stated fails in the scenario it describes. Without \<open>SortBy\<close> the result has
  the 5 group edges only and the node data \<^verbatim>\<open>canexpand\<close> is 5; with \<open>SortBy\<close> the result
  has 6 edges and \<^verbatim>\<open>canexpand\<close> is 4. In neither run is it 9.
\<close>

theorem C2_counterexample:
  "length (filter (isGroupEdge capStore) capCandidates) = 5 \<and>
   length (filter (\<lambda>e. \<not> isGroupEdge capStore e) capCandidates) = 10 \<and>
   SortBy capStore = None \<and>
   map_option (map_sum id (\<lambda>r. (Size (Graph (fst r)), NodeData (Graph (fst r)) 0 ''canexpand'')))
     (Analyze capStore capOptions) = Some (Inr (5, Some (IntValue 5))) \<and>
   SortBy capStoreSorted = Some 0 \<and>
   map_option (map_sum id (\<lambda>r. (Size (Graph (fst r)), NodeData (Graph (fst r)) 0 ''canexpand'')))
     (Analyze capStoreSorted capOptions) = Some (Inr (6, Some (IntValue 4)))"
  by code_simp

section \<open>The state of a node that is reached again\<close>

text \<open>
  What line 263 does with the state of an accepted candidate: in every round but the first
  it is replaced, whether or not the candidate had one; in round 1 an existing state stays.
\<close>

lemma rangeEdge_replaces_state:
  assumes "edgeVerdict E opts g x r de dt cur ei nx eb = Accept d p" and "r \<noteq> 1"
  shows "map_of (snd (rangeEdge E opts g r de dt cur ei (nx, eb) (m, x))) nx
           = Some \<lparr>CanExpand = 0, processRound = r + 1,
                   accumulatedprobability = accumulate (accumulatedprobability ei) p\<rparr>"
  using assms by (simp add: rangeEdge_def update_conv')

lemma rangeEdge_keeps_state_in_round_1:
  assumes "edgeVerdict E opts g x 1 de dt cur ei nx eb = Accept d p" and "map_of x nx = Some s"
  shows "map_of (snd (rangeEdge E opts g 1 de dt cur ei (nx, eb) (m, x))) nx = Some s"
  using assms by (simp add: rangeEdge_def)

text \<open>
  C1 on the code. In round 2 of the shared-predecessor scenario, node 1 discovers node 3
  with round 3 and probability 1; then node 2 reaches node 3 again over the pair of
  probability 50 and the state of node 3 becomes round 3 and probability 1/2, which is
  what the expansion ends with. In the cycle scenario with a backlink window of 2 the
  target 0, seeded with round 1, is reached again in round 2 and ends with round 3. The
  guard of line 263 keeps an existing state in round 1 only.
\<close>

theorem C1_state_overwritten:
  "map_sum id (\<lambda>st. map_of (snd st) 3) (sharedRoundTwo [0, 1])
     = Inr (Some \<lparr>CanExpand = 0, processRound = 3, accumulatedprobability = 1\<rparr>) \<and>
   map_sum id (\<lambda>st. map_of (snd st) 3) (sharedRoundTwo [0, 1, 2])
     = Inr (Some \<lparr>CanExpand = 0, processRound = 3, accumulatedprobability = 1 / 2\<rparr>) \<and>
   map_option (map_sum id (\<lambda>st. map_of (snd st) 3)) (expansion sharedStore sharedOptions)
     = Some (Inr (Some \<lparr>CanExpand = 0, processRound = 3, accumulatedprobability = 1 / 2\<rparr>)) \<and>
   map_of (snd (seed cycleStore cycleOptions)) 0
     = Some \<lparr>CanExpand = 0, processRound = 1, accumulatedprobability = 1\<rparr> \<and>
   map_option (map_sum id (\<lambda>st. map_of (snd st) 0)) (expansion cycleStore cycleOptions)
     = Some (Inr (Some \<lparr>CanExpand = 0, processRound = 3, accumulatedprobability = 1\<rparr>))"
  by code_simp

section \<open>Invariants of the expansion\<close>

text \<open>
  \<open>covered g x\<close>: the nodes of the graph are distinct and each of them has a state in
  \<^verbatim>\<open>extrainfo\<close>. \<open>grows g' g m\<close>: \<open>g'\<close> comes from \<open>g\<close> by adding edges of the candidate map
  \<open>m\<close> and their end points. For a pair of a candidate map, \<open>nearEnd\<close> is the node being
  expanded and \<open>farEnd\<close> the candidate.
\<close>

definition covered :: "Graph \<Rightarrow> ExtraInfo \<Rightarrow> bool" where
  "covered g x = (distinct (nodes g) \<and> set (nodes g) \<subseteq> fst ` set x)"

definition grows :: "Graph \<Rightarrow> Graph \<Rightarrow> ConnectionsMap \<Rightarrow> bool" where
  "grows g' g m =
     (set (nodes g) \<subseteq> set (nodes g') \<and>
      set (nodes g') \<subseteq> set (nodes g) \<union> fst ` fst ` set m \<union> snd ` fst ` set m \<and>
      (distinct (nodes g) \<longrightarrow> distinct (nodes g')) \<and>
      fst ` set (edges g') \<subseteq> fst ` set (edges g) \<union> fst ` set m)"

lemma grows_refl: "grows g g m"
  by (auto simp: grows_def)

lemma grows_trans:
  "grows g1 g m1 \<Longrightarrow> grows g2 g1 m2 \<Longrightarrow> set m1 \<subseteq> set m \<Longrightarrow> set m2 \<subseteq> set m \<Longrightarrow> grows g2 g m"
proof -
  assume a: "grows g1 g m1" and b: "grows g2 g1 m2" and s1: "set m1 \<subseteq> set m" and s2: "set m2 \<subseteq> set m"
  have n1: "set (nodes g) \<subseteq> set (nodes g2)" using a b unfolding grows_def by (meson subset_trans)
  have k1: "fst ` set m1 \<subseteq> fst ` set m" and k2: "fst ` set m2 \<subseteq> fst ` set m"
    using s1 s2 by (simp_all add: image_mono)
  have f1: "fst ` fst ` set m1 \<subseteq> fst ` fst ` set m" and f2: "fst ` fst ` set m2 \<subseteq> fst ` fst ` set m"
    and t1: "snd ` fst ` set m1 \<subseteq> snd ` fst ` set m" and t2: "snd ` fst ` set m2 \<subseteq> snd ` fst ` set m"
    using k1 k2 by (simp_all add: image_mono)
  have n2: "set (nodes g2) \<subseteq> set (nodes g) \<union> fst ` fst ` set m \<union> snd ` fst ` set m"
  proof
    fix v assume "v \<in> set (nodes g2)"
    with b have "v \<in> set (nodes g1) \<or> v \<in> fst ` fst ` set m2 \<or> v \<in> snd ` fst ` set m2"
      unfolding grows_def by (simp only: subset_iff Un_iff; metis)
    moreover from a have "set (nodes g1) \<subseteq> set (nodes g) \<union> fst ` fst ` set m1 \<union> snd ` fst ` set m1"
      by (simp add: grows_def)
    ultimately show "v \<in> set (nodes g) \<union> fst ` fst ` set m \<union> snd ` fst ` set m"
      using f1 f2 t1 t2 by (simp only: subset_iff Un_iff; metis)
  qed
  have d: "distinct (nodes g) \<longrightarrow> distinct (nodes g2)" using a b by (simp add: grows_def)
  have e: "fst ` set (edges g2) \<subseteq> fst ` set (edges g) \<union> fst ` set m"
  proof
    fix k assume "k \<in> fst ` set (edges g2)"
    with b have "k \<in> fst ` set (edges g1) \<or> k \<in> fst ` set m2"
      unfolding grows_def by (simp only: subset_iff Un_iff; metis)
    moreover from a have "fst ` set (edges g1) \<subseteq> fst ` set (edges g) \<union> fst ` set m1"
      by (simp add: grows_def)
    ultimately show "k \<in> fst ` set (edges g) \<union> fst ` set m"
      using k1 k2 by (simp only: subset_iff Un_iff; metis)
  qed
  from n1 n2 d e show ?thesis by (simp add: grows_def)
qed

lemma edges_AddNode: "edges (AddNode g n) = edges g"
  by (simp add: AddNode_def)

lemma distinct_AddNode: "distinct (nodes g) \<Longrightarrow> distinct (nodes (AddNode g n))"
  by (simp add: AddNode_def)

lemma set_nodes_AddEdge: "set (nodes (AddEdge g s t b)) = insert s (insert t (set (nodes g)))"
  by (auto simp: AddEdge_def Let_def nodes_AddNode)

lemma distinct_AddEdge: "distinct (nodes g) \<Longrightarrow> distinct (nodes (AddEdge g s t b))"
  by (simp add: AddEdge_def Let_def distinct_AddNode)

lemma keys_AddEdge: "fst ` set (edges (AddEdge g s t b)) = insert (s, t) (fst ` set (edges g))"
proof (cases "map_of (edges g) (s, t)")
  case None
  then show ?thesis by (simp add: AddEdge_def Let_def edges_AddNode)
next
  case (Some old)
  then show ?thesis by (simp add: AddEdge_def Let_def edges_AddNode dom_update)
qed

lemma grows_AddEdge: "e \<in> set m \<Longrightarrow> grows (AddEdge g (fst (fst e)) (snd (fst e)) (snd e)) g m"
  by (auto simp: grows_def set_nodes_AddEdge distinct_AddEdge keys_AddEdge)

lemma grows_addEdges_aux:
  "set es \<subseteq> set m \<Longrightarrow> grows (fold (\<lambda>e g. AddEdge g (fst (fst e)) (snd (fst e)) (snd e)) es g) g m"
proof (induction es arbitrary: g)
  case Nil
  show ?case by (simp add: grows_refl)
next
  case (Cons e es)
  let ?g1 = "AddEdge g (fst (fst e)) (snd (fst e)) (snd e)"
  from Cons.prems have "grows ?g1 g m" by (simp add: grows_AddEdge)
  moreover from Cons.IH [of ?g1] Cons.prems
  have "grows (fold (\<lambda>e g. AddEdge g (fst (fst e)) (snd (fst e)) (snd e)) es ?g1) ?g1 m" by simp
  ultimately show ?case using grows_trans [of ?g1 g m _ m m] by simp
qed

lemma grows_addEdges: "set es \<subseteq> set m \<Longrightarrow> grows (addEdges g es) g m"
  by (simp add: addEdges_def grows_addEdges_aux)

lemma grows_addUpToLimit:
  "set es \<subseteq> set m \<Longrightarrow> grows (fst (addUpToLimit maxout added i es (g, c))) g m"
proof (induction es arbitrary: g c i)
  case Nil
  show ?case by (simp add: grows_refl)
next
  case (Cons e es)
  let ?g1 = "AddEdge g (fst (fst e)) (snd (fst e)) (snd e)"
  show ?case
  proof (cases "i + added < maxout")
    case True
    from Cons.prems have "grows ?g1 g m" by (simp add: grows_AddEdge)
    moreover have "grows (fst (addUpToLimit maxout added (i + 1) es (?g1, c + 1))) ?g1 m"
      using Cons.prems by (intro Cons.IH) simp
    ultimately show ?thesis using True grows_trans [of ?g1 g m _ m m] by simp
  next
    case False
    then show ?thesis by (simp add: grows_refl)
  qed
qed

lemma grows_commitConnections: "grows (fst (commitConnections E opts g m)) g m"
proof (cases "MaxOutgoingConnections opts = - 1 \<or> int (length m) < MaxOutgoingConnections opts")
  case True
  then show ?thesis by (simp add: commitConnections_def grows_addEdges)
next
  case False
  let ?fits = "int (length (filter (isGroupEdge E) m)) < MaxOutgoingConnections opts"
  let ?g1 = "if ?fits then addEdges g (filter (isGroupEdge E) m) else g"
  let ?rest = "if ?fits then filter (\<lambda>e. \<not> isGroupEdge E e) m else m"
  let ?added = "if ?fits then int (length (filter (isGroupEdge E) m)) else 0"
  have g1: "grows ?g1 g m" by (simp add: grows_addEdges grows_refl)
  show ?thesis
  proof (cases "SortBy E")
    case None
    with False have "fst (commitConnections E opts g m) = ?g1"
      by (simp add: commitConnections_def Let_def)
    with g1 show ?thesis by simp
  next
    case (Some a)
    have sub: "set (sortNotAdded E opts a ?rest) \<subseteq> set m"
      by (auto simp: sortNotAdded_def)
    let ?r = "addUpToLimit (MaxOutgoingConnections opts) ?added 0
                (sortNotAdded E opts a ?rest) (?g1, 0)"
    have "grows (fst ?r) ?g1 m" using grows_addUpToLimit [OF sub] .
    with g1 have g2: "grows (fst ?r) g m" using grows_trans [of ?g1 g m _ m m] by simp
    from False Some have "fst (commitConnections E opts g m) = fst ?r"
      by (cases ?r) (simp add: commitConnections_def Let_def)
    with g2 show ?thesis by simp
  qed
qed

definition nearEnd :: "AnalyzeOptions \<Rightarrow> Object \<times> Object \<Rightarrow> Object" where
  "nearEnd opts k = (if Direction opts = In then snd k else fst k)"

definition farEnd :: "AnalyzeOptions \<Rightarrow> Object \<times> Object \<Rightarrow> Object" where
  "farEnd opts k = (if Direction opts = In then fst k else snd k)"

definition candidatesOf :: "AnalyzeOptions \<Rightarrow> Object \<Rightarrow> ConnectionsMap \<times> ExtraInfo \<Rightarrow> bool" where
  "candidatesOf opts cur st =
     (\<forall>k \<in> fst ` set (fst st). nearEnd opts k = cur \<and> farEnd opts k \<in> fst ` set (snd st))"

lemma in_keys_iff: "(n \<in> fst ` set x) = (map_of x n \<noteq> None)"
  by (simp add: map_of_eq_None_iff)

lemma rangeEdge_states:
  "fst ` set (snd st) \<subseteq> fst ` set (snd (rangeEdge E opts g r de dt cur ei ne st))"
  by (cases st; cases ne) (auto simp: rangeEdge_def dom_update split: Verdict.splits)

lemma rangeEdge_candidates:
  assumes "candidatesOf opts cur st"
  shows "candidatesOf opts cur (rangeEdge E opts g r de dt cur ei ne st)"
proof -
  obtain m x where st: "st = (m, x)" by (cases st)
  obtain nx eb where ne: "ne = (nx, eb)" by (cases ne)
  show ?thesis
  proof (cases "edgeVerdict E opts g x r de dt cur ei nx eb")
    case (Accept d p)
    let ?k = "if Direction opts = In then (nx, cur) else (cur, nx)"
    let ?x' = "if r \<noteq> 1 \<or> map_of x nx = None
               then AList.update nx \<lparr>CanExpand = 0, processRound = r + 1,
                      accumulatedprobability = accumulate (accumulatedprobability ei) p\<rparr> x
               else x"
    have eq: "rangeEdge E opts g r de dt cur ei ne st = (AList.update ?k d m, ?x')"
      by (simp add: rangeEdge_def st ne Accept)
    have nx: "nx \<in> fst ` set ?x'"
    proof (cases "r \<noteq> 1 \<or> map_of x nx = None")
      case True
      then show ?thesis by (simp add: dom_update)
    next
      case False
      then have "map_of x nx \<noteq> None" by simp
      then have "nx \<in> fst ` set x" by (simp add: in_keys_iff)
      with False show ?thesis by (auto simp: dom_update)
    qed
    have sub: "fst ` set x \<subseteq> fst ` set ?x'" by (auto simp: dom_update)
    have new: "nearEnd opts ?k = cur \<and> farEnd opts ?k \<in> fst ` set ?x'"
      using nx by (simp add: nearEnd_def farEnd_def)
    have old: "\<forall>k \<in> fst ` set m. nearEnd opts k = cur \<and> farEnd opts k \<in> fst ` set ?x'"
      using assms sub unfolding candidatesOf_def st by (simp only: fst_conv snd_conv) blast
    have "fst ` set (AList.update ?k d m) = insert ?k (fst ` set m)" by (simp add: dom_update)
    with new old show ?thesis unfolding eq candidatesOf_def by (simp only: fst_conv snd_conv) blast
  qed (use assms in \<open>simp_all add: rangeEdge_def st ne\<close>)
qed

lemma fold_rangeEdge:
  "candidatesOf opts cur st \<Longrightarrow>
   candidatesOf opts cur (fold (rangeEdge E opts g r de dt cur ei) es st) \<and>
   fst ` set (snd st) \<subseteq> fst ` set (snd (fold (rangeEdge E opts g r de dt cur ei) es st))"
proof (induction es arbitrary: st)
  case Nil
  then show ?case by simp
next
  case (Cons ne es)
  let ?st1 = "rangeEdge E opts g r de dt cur ei ne st"
  from Cons.prems have c: "candidatesOf opts cur ?st1" by (rule rangeEdge_candidates)
  from Cons.IH [OF c] rangeEdge_states [of st E opts g r de dt cur ei ne]
  show ?case by auto
qed

lemma setCanExpand_keys: "fst ` set (setCanExpand x cur ei c) = fst ` set x"
proof (cases "map_of x cur = Some ei")
  case True
  then have "map_of x cur \<noteq> None" by simp
  then have "cur \<in> fst ` set x" by (simp add: in_keys_iff)
  with True show ?thesis by (auto simp: setCanExpand_def dom_update)
next
  case False
  then show ?thesis by (simp add: setCanExpand_def)
qed

definition newEdgesFrom :: "Engine \<Rightarrow> AnalyzeOptions \<Rightarrow> Graph \<Rightarrow> Graph \<Rightarrow> bool" where
  "newEdgesFrom E opts g g' =
     (\<forall>k \<in> fst ` set (edges g'). k \<in> fst ` set (edges g) \<or> \<not> isAUEO E opts (nearEnd opts k))"

lemma newEdgesFrom_refl: "newEdgesFrom E opts g g"
  by (simp add: newEdgesFrom_def)

lemma newEdgesFrom_trans:
  "newEdgesFrom E opts g g1 \<Longrightarrow> newEdgesFrom E opts g1 g2 \<Longrightarrow> newEdgesFrom E opts g g2"
  unfolding newEdgesFrom_def by blast

lemma candidatesOfD:
  "candidatesOf opts cur (m, x) \<Longrightarrow> k \<in> fst ` set m \<Longrightarrow>
   nearEnd opts k = cur \<and> farEnd opts k \<in> fst ` set x"
  unfolding candidatesOf_def by (simp only: fst_conv snd_conv)

lemma processNode_inv:
  assumes cov: "covered g x" and cur: "cur \<in> set (nodes g)"
  shows "\<exists>g' x'. processNode E opts r de dt cur (g, x) = Inr (g', x') \<and> covered g' x' \<and>
           set (nodes g) \<subseteq> set (nodes g') \<and> newEdgesFrom E opts g g'"
proof -
  from cov cur have "cur \<in> fst ` set x" by (auto simp: covered_def)
  then obtain ei where ei: "map_of x cur = Some ei" by (auto simp: in_keys_iff)
  show ?thesis
  proof (cases "processRound ei \<noteq> r \<or> isAUEO E opts cur")
    case True
    with ei have "processNode E opts r de dt cur (g, x) = Inr (g, x)"
      by (auto simp: processNode_def)
    with cov show ?thesis by (simp add: newEdgesFrom_refl)
  next
    case False
    let ?f = "fold (rangeEdge E opts g r de dt cur ei) (objEdges E (Direction opts) cur) ([], x)"
    obtain m x1 where f: "?f = (m, x1)" by (cases ?f)
    have "candidatesOf opts cur ([], x)" by (simp add: candidatesOf_def)
    from fold_rangeEdge [OF this, of E g r de dt ei "objEdges E (Direction opts) cur"]
    have cand: "candidatesOf opts cur (m, x1)" and sub: "fst ` set x \<subseteq> fst ` set x1"
      by (simp_all add: f)
    obtain g' c where cc: "commitConnections E opts g m = (g', c)"
      by (cases "commitConnections E opts g m")
    have gr: "grows g' g m" using grows_commitConnections [of E opts g m] by (simp add: cc)
    let ?x' = "case c of None \<Rightarrow> x1 | Some v \<Rightarrow> setCanExpand x1 cur ei v"
    have res: "processNode E opts r de dt cur (g, x) = Inr (g', ?x')"
      using False ei by (simp add: processNode_def f cc split: option.splits)
    have keys: "fst ` set ?x' = fst ` set x1"
      by (simp add: setCanExpand_keys split: option.splits)
    have ends: "fst ` fst ` set m \<union> snd ` fst ` set m \<subseteq> fst ` set x1"
    proof
      fix v assume "v \<in> fst ` fst ` set m \<union> snd ` fst ` set m"
      then obtain k where k: "k \<in> fst ` set m" and v: "v = fst k \<or> v = snd k" by auto
      from cand k have "nearEnd opts k = cur \<and> farEnd opts k \<in> fst ` set x1"
        by (rule candidatesOfD)
      moreover from \<open>cur \<in> fst ` set x\<close> sub have "cur \<in> fst ` set x1" by blast
      ultimately show "v \<in> fst ` set x1" using v
        by (auto simp: nearEnd_def farEnd_def split: if_splits)
    qed
    have n1: "set (nodes g) \<subseteq> set (nodes g')" using gr by (simp add: grows_def)
    have n2: "set (nodes g') \<subseteq> fst ` set x1"
    proof -
      from gr have "set (nodes g') \<subseteq> set (nodes g) \<union> fst ` fst ` set m \<union> snd ` fst ` set m"
        by (simp add: grows_def)
      moreover from cov sub have "set (nodes g) \<subseteq> fst ` set x1" by (auto simp: covered_def)
      ultimately show ?thesis using ends by blast
    qed
    have d: "distinct (nodes g')" using gr cov by (simp add: grows_def covered_def)
    have ne: "newEdgesFrom E opts g g'"
      unfolding newEdgesFrom_def
    proof
      fix k assume "k \<in> fst ` set (edges g')"
      with gr have "k \<in> fst ` set (edges g) \<or> k \<in> fst ` set m" by (auto simp: grows_def)
      moreover have "nearEnd opts k = cur" if "k \<in> fst ` set m"
        using candidatesOfD [OF cand that] by simp
      ultimately show "k \<in> fst ` set (edges g) \<or> \<not> isAUEO E opts (nearEnd opts k)"
        using False by auto
    qed
    from res d n1 n2 keys ne show ?thesis by (simp add: covered_def)
  qed
qed

lemma processNodes_inv:
  "covered (fst st) (snd st) \<Longrightarrow> set ns \<subseteq> set (nodes (fst st)) \<Longrightarrow>
   \<exists>st'. processNodes E opts r de dt ns st = Inr st' \<and> covered (fst st') (snd st') \<and>
          set (nodes (fst st)) \<subseteq> set (nodes (fst st')) \<and> newEdgesFrom E opts (fst st) (fst st')"
proof (induction ns arbitrary: st)
  case Nil
  then show ?case by (simp add: newEdgesFrom_refl)
next
  case (Cons n ns)
  obtain g x where st: "st = (g, x)" by (cases st)
  from Cons.prems have cov: "covered g x" and n: "n \<in> set (nodes g)" by (simp_all add: st)
  from processNode_inv [OF cov n, of E opts r de dt]
  obtain g1 x1 where p: "processNode E opts r de dt n (g, x) = Inr (g1, x1)"
    and c1: "covered g1 x1" and s1: "set (nodes g) \<subseteq> set (nodes g1)"
    and e1: "newEdgesFrom E opts g g1" by blast
  from Cons.prems(2) s1 have "set ns \<subseteq> set (nodes (fst (g1, x1)))" by (auto simp: st)
  with Cons.IH [of "(g1, x1)"] c1
  obtain st' where r: "processNodes E opts r de dt ns (g1, x1) = Inr st'"
    and c2: "covered (fst st') (snd st')" and s2: "set (nodes g1) \<subseteq> set (nodes (fst st'))"
    and e2: "newEdgesFrom E opts g1 (fst st')" by auto
  from p r have "processNodes E opts r de dt (n # ns) st = Inr st'" by (simp add: st)
  with c2 s1 s2 newEdgesFrom_trans [OF e1 e2] show ?case by (auto simp: st)
qed

lemma expandRounds_inv:
  assumes "expandRounds E opts r de dt g x = Some y" and "covered g x"
  shows "\<exists>st. y = Inr st \<and> covered (fst st) (snd st) \<and> newEdgesFrom E opts g (fst st)"
  using assms
proof (induction E opts r de dt g x y rule: expandRounds.raw_induct [rotated 1, consumes 1])
  case (1 rec E opts r de dt g x y)
  show ?case
  proof (cases "r \<le> MaxDepth opts \<or> MaxDepth opts = - 1")
    case False
    with "1.hyps" "1.prems" show ?thesis by (auto simp: newEdgesFrom_refl)
  next
    case True
    from processNodes_inv [of "(g, x)" "nodes g" E opts r "roundEdges opts r de" "roundTypes opts r dt"]
      "1.prems"
    obtain st' where p: "processNodes E opts r (roundEdges opts r de) (roundTypes opts r dt)
        (nodes g) (g, x) = Inr st'"
      and c: "covered (fst st') (snd st')" and e: "newEdgesFrom E opts g (fst st')" by auto
    show ?thesis
    proof (cases "Order g = Order (fst st')")
      case same: True
      with True p "1.hyps" have "y = Inr st'" by simp
      with c e show ?thesis by simp
    next
      case False
      with True p "1.hyps"
      have "rec E opts (r + 1) (roundEdges opts r de) (roundTypes opts r dt) (fst st') (snd st') = Some y"
        by simp
      from "1.IH" [OF this c]
      obtain st where "y = Inr st" "covered (fst st) (snd st)" "newEdgesFrom E opts (fst st') (fst st)"
        by blast
      with newEdgesFrom_trans [OF e] show ?thesis by blast
    qed
  qed
qed

text \<open>Seeding leaves a graph without edges in which every node has a state.\<close>

lemma seedState_keys: "fst ` set (seedState x n) = insert n (fst ` set x)"
proof (cases "map_of x n")
  case None
  then show ?thesis by (simp add: seedState_def dom_update)
next
  case (Some ei)
  then have "map_of x n \<noteq> None" by simp
  then have "n \<in> fst ` set x" by (simp add: in_keys_iff)
  with Some show ?thesis by (auto simp: seedState_def dom_update)
qed

lemma fold_seedState_keys:
  "fst ` set (fold (\<lambda>m x. seedState x m) ns x) = fst ` set x \<union> set ns"
  by (induction ns arbitrary: x) (auto simp: seedState_keys)

lemma distinct_SetNodeData: "distinct (nodes g) \<Longrightarrow> distinct (nodes (SetNodeData g n k v))"
  by (simp add: SetNodeData_def Let_def AddNode_def)

lemma seedObject_inv:
  assumes "distinct (nodes (fst st))" and "edges (fst st) = []"
  shows "covered (fst (seedObject n st)) (snd (seedObject n st)) \<and> edges (fst (seedObject n st)) = []"
  using assms
  by (auto simp: seedObject_def Let_def covered_def fold_seedState_keys distinct_SetNodeData
      edges_SetNodeData)

lemma fold_seedObject_inv:
  "distinct (nodes (fst st)) \<Longrightarrow> edges (fst st) = [] \<Longrightarrow> covered (fst st) (snd st) \<Longrightarrow>
   covered (fst (fold seedObject ns st)) (snd (fold seedObject ns st)) \<and>
   edges (fst (fold seedObject ns st)) = []"
proof (induction ns arbitrary: st)
  case Nil
  then show ?case by simp
next
  case (Cons n ns)
  from seedObject_inv [OF Cons.prems(1,2), of n]
  have c: "covered (fst (seedObject n st)) (snd (seedObject n st))"
    and e: "edges (fst (seedObject n st)) = []" by simp_all
  from c have d: "distinct (nodes (fst (seedObject n st)))" by (simp add: covered_def)
  from Cons.IH [OF d e c] show ?case by simp
qed

lemma seed_inv: "covered (fst (seed E opts)) (snd (seed E opts)) \<and> edges (fst (seed E opts)) = []"
  unfolding seed_def
  by (rule fold_seedObject_inv) (simp_all add: NewGraph_def covered_def)

lemma expansion_state:
  assumes "expansion E opts = Some y"
  shows "\<exists>g x. y = Inr (g, x) \<and> covered g x \<and>
           (\<forall>k \<in> fst ` set (edges g). \<not> isAUEO E opts (nearEnd opts k))"
proof -
  from seed_inv [of E opts] have c: "covered (fst (seed E opts)) (snd (seed E opts))"
    and e: "edges (fst (seed E opts)) = []" by simp_all
  from assms have "expandRounds E opts 1 (EdgesFirst opts) (ObjectTypesFirst opts)
       (fst (seed E opts)) (snd (seed E opts)) = Some y" by (simp add: expansion_def)
  from expandRounds_inv [OF this c]
  obtain st where y: "y = Inr st" and cs: "covered (fst st) (snd st)"
    and n: "newEdgesFrom E opts (fst (seed E opts)) (fst st)" by blast
  from n e have "\<forall>k \<in> fst ` set (edges (fst st)). \<not> isAUEO E opts (nearEnd opts k)"
    by (simp add: newEdgesFrom_def)
  with y cs show ?thesis by (cases st) auto
qed

section \<open>What the later phases keep\<close>

text \<open>
  \<open>shrinks g' g\<close>: \<open>g'\<close> has no node and no edge that \<open>g\<close> does not have. Trim, marking,
  node-budget prune, island prune and the publication of \<^verbatim>\<open>canexpand\<close> only shrink the graph.
\<close>

definition shrinks :: "Graph \<Rightarrow> Graph \<Rightarrow> bool" where
  "shrinks g' g =
     (set (nodes g') \<subseteq> set (nodes g) \<and> set (edges g') \<subseteq> set (edges g) \<and>
      (distinct (nodes g) \<longrightarrow> distinct (nodes g')))"

lemma shrinks_refl: "shrinks g g"
  by (simp add: shrinks_def)

lemma shrinks_trans: "shrinks g1 g \<Longrightarrow> shrinks g2 g1 \<Longrightarrow> shrinks g2 g"
  unfolding shrinks_def by (meson subset_trans)

lemma shrinks_DeleteNode: "shrinks (DeleteNode g n) g"
  by (auto simp: shrinks_def DeleteNode_def distinct_removeAll)

lemma shrinks_fold_trimEdge: "shrinks (fst (fold (trimEdge E opts outer) es st)) (fst st)"
proof (induction es arbitrary: st)
  case Nil
  show ?case by (simp add: shrinks_refl)
next
  case (Cons e es)
  have "shrinks (fst (trimEdge E opts outer e st)) (fst st)"
    by (simp add: trimEdge_def shrinks_refl shrinks_DeleteNode)
  from shrinks_trans [OF this Cons.IH [of "trimEdge E opts outer e st"]] show ?case by simp
qed

lemma shrinks_trimPass: "shrinks (fst (trimPass E opts g)) g"
  using shrinks_fold_trimEdge [of E opts "outerNodes opts g" "edges g" "(g, 0)"]
  by (simp add: trimPass_def)

lemma shrinks_trimLoop: "shrinks (trimLoop E opts g) g"
proof (induction E opts g rule: trimLoop.induct)
  case (1 E opts g)
  show ?case
  proof (cases "snd (trimPass E opts g) = 0")
    case True
    then show ?thesis by (simp add: trimLoop_stop shrinks_trimPass)
  next
    case False
    from shrinks_trans [OF shrinks_trimPass "1.IH" [OF False]] False
    show ?thesis by (simp add: trimLoop_step)
  qed
qed

lemma fold_mark_edges:
  "edges (fold (\<lambda>n h. SetNodeData h n k v) ns g) = edges g"
  by (induction ns arbitrary: g) (simp_all add: edges_SetNodeData)

lemma shrinks_markSources: "shrinks (markSources opts g) g"
  by (simp add: shrinks_def nodes_markSources) (simp add: markSources_def fold_mark_edges)

lemma shrinks_trimmed: "shrinks (trimmed E opts g) g"
  unfolding trimmed_def by (rule shrinks_trans [OF shrinks_trimLoop shrinks_markSources])

lemma shrinks_pruneOuter:
  "shrinks (fst (pruneOuter x maxround ns (g, l, r))) g"
proof (induction ns arbitrary: g l r)
  case Nil
  show ?case by (simp add: shrinks_refl)
next
  case (Cons n ns)
  have a: "shrinks (fst (pruneOuter x maxround ns (DeleteNode g n, l', r'))) g" for l' r'
    by (rule shrinks_trans [OF shrinks_DeleteNode Cons.IH])
  show ?case
    by (simp add: a Cons.IH shrinks_refl shrinks_DeleteNode)
qed

lemma shrinks_budgetPass: "shrinks (fst (budgetPass opts x g l)) g"
  by (simp add: budgetPass_def shrinks_pruneOuter)

lemma shrinks_budgetLoop:
  "budgetLoop opts x g l = Inr (g', w) \<Longrightarrow> shrinks g' g"
proof (induction opts x g l rule: budgetLoop.induct)
  case (1 opts x g l)
  show ?case
  proof (cases "0 < l")
    case False
    with "1.prems" show ?thesis by (simp add: budgetLoop_stop shrinks_refl)
  next
    case True
    show ?thesis
    proof (cases "list_ex (\<lambda>n. map_of x n = None) (outerNodes opts g)")
      case nil: True
      with True "1.prems" show ?thesis by (subst (asm) budgetLoop.simps) simp
    next
      case False
      show ?thesis
      proof (cases "snd (snd (budgetPass opts x g l)) = 0 \<and> 0 < fst (snd (budgetPass opts x g l))")
        case warn: True
        from budgetLoop_warn [OF True False warn] "1.prems" show ?thesis
          by (auto simp: shrinks_budgetPass)
      next
        case step: False
        from budgetLoop_step [OF True False step] "1.prems"
        have "budgetLoop opts x (fst (budgetPass opts x g l)) (fst (snd (budgetPass opts x g l)))
                = Inr (g', w)" by simp
        from "1.IH" [OF True False step this] shrinks_budgetPass [of opts x g l]
        show ?thesis by (meson shrinks_trans)
      qed
    qed
  qed
qed

lemma shrinks_budgetPrune: "budgetPrune opts x g = Inr (g', w) \<Longrightarrow> shrinks g' g"
  by (auto simp: budgetPrune_def shrinks_refl shrinks_budgetLoop split: if_splits)

lemma shrinks_fold_DeleteNode: "shrinks (fold (\<lambda>n h. DeleteNode h n) ns g) g"
proof (induction ns arbitrary: g)
  case Nil
  show ?case by (simp add: shrinks_refl)
next
  case (Cons n ns)
  from shrinks_trans [OF shrinks_DeleteNode Cons.IH [of "DeleteNode g n"]] show ?case by simp
qed

lemma shrinks_pruneIslands: "shrinks (pruneIslands opts g) g"
  by (simp add: pruneIslands_def shrinks_refl shrinks_fold_DeleteNode)

lemma edges_publishCanExpand: "edges (publishCanExpand x g) = edges g"
  unfolding publishCanExpand_def
  by (induction x arbitrary: g) (simp_all add: edges_SetNodeData)

lemma shrinks_finish: "shrinks (finish opts x g) g"
proof -
  have "shrinks (publishCanExpand x (markSources opts (pruneIslands opts g)))
          (markSources opts (pruneIslands opts g))"
    by (simp add: shrinks_def nodes_publishCanExpand edges_publishCanExpand)
  from shrinks_trans [OF shrinks_trans [OF shrinks_pruneIslands shrinks_markSources] this]
  show ?thesis by (simp add: finish_def)
qed

lemma postProcess_shrinks:
  assumes "postProcess E opts (g, x) = Inr (res, w)"
  shows "shrinks (Graph res) g"
proof -
  from assms obtain g2 w2 where b: "budgetPrune opts x (trimmed E opts g) = Inr (g2, w2)"
    and r: "Graph res = finish opts x g2"
    by (auto simp: postProcess_def split: sum.splits)
  from shrinks_trans [OF shrinks_trans [OF shrinks_trimmed shrinks_budgetPrune [OF b]] shrinks_finish]
  show ?thesis by (simp add: r)
qed

lemma covered_shrinks: "covered g x \<Longrightarrow> shrinks g' g \<Longrightarrow> covered g' x"
  by (auto simp: covered_def shrinks_def)

lemma covered_states:
  assumes "covered g x"
  shows "\<forall>n \<in> set (nodes g). map_of x n \<noteq> None"
proof
  fix n assume "n \<in> set (nodes g)"
  with assms have "n \<in> fst ` set x" unfolding covered_def by blast
  then show "map_of x n \<noteq> None" by (simp add: in_keys_iff)
qed

lemma budgetPrune_returns:
  assumes "covered g x"
  shows "\<exists>g' w. budgetPrune opts x g = Inr (g', w)"
proof (cases "NodeLimit opts > 0 \<and> wrap64 (Order g - NodeLimit opts) > 0")
  case True
  from assms have d: "distinct (nodes g)" by (simp add: covered_def)
  from budgetLoop_result [OF d covered_states [OF assms], of "wrap64 (Order g - NodeLimit opts)" opts] True
  show ?thesis by (auto simp: budgetPrune_def)
next
  case False
  then show ?thesis by (auto simp: budgetPrune_def)
qed

lemma Analyze_returns_result:
  assumes "Analyze E opts = Some y"
  shows "\<exists>res w. y = Inr (res, w)"
proof -
  from assms obtain z where e: "expansion E opts = Some z"
    by (auto simp: Analyze_def expansion_def split: option.splits)
  from expansion_state [OF e] obtain g x where z: "z = Inr (g, x)" and c: "covered g x" by blast
  from covered_shrinks [OF c shrinks_trimmed, of E opts]
  have "covered (trimmed E opts g) x" .
  from budgetPrune_returns [OF this, of opts]
  obtain g' w where "budgetPrune opts x (trimmed E opts g) = Inr (g', w)" by blast
  then have "\<exists>res w. postProcess E opts (g, x) = Inr (res, w)" by (simp add: postProcess_def)
  with assms e z show ?thesis by (auto simp: Analyze_def expansion_def)
qed

section \<open>Termination of the expansion\<close>

text \<open>
  The loop of line 163 ends when \<^verbatim>\<open>MaxDepth\<close> bounds the rounds, and also when the store is
  finite: \<open>closedStore E opts U\<close> says that the finite set \<open>U\<close> holds the objects that the
  first filter selects and, with an object, its neighbours in the direction of the
  analysis. A round that does not end the loop adds a node of \<open>U\<close> to the graph.
\<close>

definition closedStore :: "Engine \<Rightarrow> AnalyzeOptions \<Rightarrow> Object set \<Rightarrow> bool" where
  "closedStore E opts U =
     (finite U \<and> set (queryExecute E (FilterFirst opts)) \<subseteq> U \<and>
      (\<forall>n \<in> U. fst ` set (objEdges E (Direction opts) n) \<subseteq> U))"

lemma expandRounds_returns_depth:
  assumes "MaxDepth opts \<noteq> - 1"
  shows "\<exists>y. expandRounds E opts r de dt g x = Some y"
proof (induction "nat (MaxDepth opts + 1 - r)" arbitrary: r de dt g x)
  case 0
  with assms have "\<not> (r \<le> MaxDepth opts \<or> MaxDepth opts = - 1)" by simp
  then show ?case by (subst expandRounds.simps) simp
next
  case (Suc k)
  show ?case
  proof (cases "processNodes E opts r (roundEdges opts r de) (roundTypes opts r dt) (nodes g) (g, x)")
    case (Inl e)
    then show ?thesis by (subst expandRounds.simps) simp
  next
    case (Inr st')
    from Suc.hyps(2) have "k = nat (MaxDepth opts + 1 - (r + 1))" by simp
    from Suc.hyps(1) [OF this]
    obtain y where "expandRounds E opts (r + 1) (roundEdges opts r de) (roundTypes opts r dt)
        (fst st') (snd st') = Some y" by blast
    with Inr show ?thesis by (subst expandRounds.simps) simp
  qed
qed

lemma rangeEdge_keys:
  "fst ` set (fst (rangeEdge E opts g r de dt cur ei ne st))
     \<subseteq> insert (if Direction opts = In then (fst ne, cur) else (cur, fst ne)) (fst ` set (fst st))"
  by (cases st; cases ne) (auto simp: rangeEdge_def dom_update split: Verdict.splits)

lemma subset_step: "A \<subseteq> B \<union> C \<Longrightarrow> B \<subseteq> insert k S \<Longrightarrow> A \<subseteq> S \<union> insert k C"
  by blast

lemma fold_rangeEdge_keys:
  "fst ` set (fst (fold (rangeEdge E opts g r de dt cur ei) es st))
     \<subseteq> fst ` set (fst st) \<union>
        (\<lambda>n. if Direction opts = In then (n, cur) else (cur, n)) ` fst ` set es"
proof (induction es arbitrary: st)
  case Nil
  then show ?case by simp
next
  case (Cons ne es)
  let ?k = "\<lambda>n. if Direction opts = In then (n, cur) else (cur, n)"
  have e: "fold (rangeEdge E opts g r de dt cur ei) (ne # es) st
      = fold (rangeEdge E opts g r de dt cur ei) es (rangeEdge E opts g r de dt cur ei ne st)"
    by simp
  have i: "?k ` fst ` set (ne # es) = insert (?k (fst ne)) (?k ` fst ` set es)" by simp
  show ?case unfolding e i
    by (rule subset_step [OF Cons.IH]) (rule rangeEdge_keys)
qed

lemma subset_three: "X \<subseteq> G \<union> A \<union> B \<Longrightarrow> G \<subseteq> U \<Longrightarrow> A \<union> B \<subseteq> U \<Longrightarrow> X \<subseteq> U"
  by blast

lemma processNode_within:
  assumes p: "processNode E opts r de dt cur (g, x) = Inr (g', x')"
    and g: "set (nodes g) \<subseteq> U" and cur: "cur \<in> U"
    and cl: "fst ` set (objEdges E (Direction opts) cur) \<subseteq> U"
  shows "set (nodes g') \<subseteq> U"
proof -
  from p have "map_of x cur \<noteq> None" by (cases "map_of x cur") (simp_all add: processNode_def)
  then obtain ei where ei: "map_of x cur = Some ei" by auto
  show ?thesis
  proof (cases "processRound ei \<noteq> r \<or> isAUEO E opts cur")
    case True
    with ei p have "g' = g" by (auto simp: processNode_def split: if_splits)
    with g show ?thesis by simp
  next
    case False
    let ?f = "fold (rangeEdge E opts g r de dt cur ei) (objEdges E (Direction opts) cur) ([], x)"
    obtain m x1 where f: "?f = (m, x1)" by (cases ?f)
    from fold_rangeEdge_keys [of E opts g r de dt cur ei "objEdges E (Direction opts) cur" "([], x)"]
    have keys: "fst ` set m \<subseteq> (\<lambda>n. if Direction opts = In then (n, cur) else (cur, n)) `
        fst ` set (objEdges E (Direction opts) cur)" by (simp add: f)
    have ends: "fst ` fst ` set m \<union> snd ` fst ` set m \<subseteq> U"
    proof
      fix v assume "v \<in> fst ` fst ` set m \<union> snd ` fst ` set m"
      then obtain k where k: "k \<in> fst ` set m" and v: "v = fst k \<or> v = snd k" by auto
      from k keys obtain n where "n \<in> fst ` set (objEdges E (Direction opts) cur)"
        and "k = (if Direction opts = In then (n, cur) else (cur, n))" by blast
      with v cl cur show "v \<in> U" by (auto split: if_splits)
    qed
    have gr: "grows (fst (commitConnections E opts g m)) g m" by (rule grows_commitConnections)
    from p False ei have "g' = fst (commitConnections E opts g m)"
      by (cases "commitConnections E opts g m") (auto simp: processNode_def f split: option.splits)
    with gr have "set (nodes g') \<subseteq> set (nodes g) \<union> fst ` fst ` set m \<union> snd ` fst ` set m"
      by (simp add: grows_def)
    then show ?thesis using g ends by (rule subset_three)
  qed
qed

lemma processNodes_within:
  "processNodes E opts r de dt ns st = Inr st' \<Longrightarrow> set (nodes (fst st)) \<subseteq> U \<Longrightarrow> set ns \<subseteq> U \<Longrightarrow>
   \<forall>n \<in> U. fst ` set (objEdges E (Direction opts) n) \<subseteq> U \<Longrightarrow>
   set (nodes (fst st')) \<subseteq> U"
proof (induction ns arbitrary: st)
  case Nil
  then show ?case by simp
next
  case (Cons n ns)
  obtain g x where st: "st = (g, x)" by (cases st)
  from Cons.prems(1) obtain g1 x1 where p: "processNode E opts r de dt n (g, x) = Inr (g1, x1)"
    and r: "processNodes E opts r de dt ns (g1, x1) = Inr st'"
    by (auto simp: st split: sum.splits)
  from Cons.prems have "set (nodes g) \<subseteq> U" "n \<in> U" "fst ` set (objEdges E (Direction opts) n) \<subseteq> U"
    by (simp_all add: st)
  from processNode_within [OF p this] have "set (nodes (fst (g1, x1))) \<subseteq> U" by simp
  from Cons.IH [OF r this] Cons.prems show ?case by simp
qed

lemma nodes_fold_seedObject:
  "set (nodes (fst (fold seedObject ns st))) = set (nodes (fst st)) \<union> set ns"
  by (induction ns arbitrary: st) (auto simp: seedObject_def Let_def set_nodes_SetNodeData)

lemma nodes_seed: "set (nodes (fst (seed E opts))) = set (queryExecute E (FilterFirst opts))"
  by (simp add: seed_def nodes_fold_seedObject NewGraph_def)

lemma expandRounds_returns_closed:
  assumes fin: "finite U" and cl: "\<forall>n \<in> U. fst ` set (objEdges E (Direction opts) n) \<subseteq> U"
  shows "covered g x \<Longrightarrow> set (nodes g) \<subseteq> U \<Longrightarrow> \<exists>y. expandRounds E opts r de dt g x = Some y"
proof (induction "card U - length (nodes g)" arbitrary: r de dt g x rule: less_induct)
  case less
  from processNodes_inv [of "(g, x)" "nodes g" E opts r "roundEdges opts r de" "roundTypes opts r dt"]
    less.prems
  obtain st' where p: "processNodes E opts r (roundEdges opts r de) (roundTypes opts r dt)
      (nodes g) (g, x) = Inr st'"
    and c: "covered (fst st') (snd st')" and s: "set (nodes g) \<subseteq> set (nodes (fst st'))" by auto
  from processNodes_within [OF p _ _ cl] less.prems have w: "set (nodes (fst st')) \<subseteq> U" by simp
  show ?case
  proof (cases "Order g = Order (fst st')")
    case True
    with p show ?thesis by (subst expandRounds.simps) simp
  next
    case False
    from less.prems c have d: "distinct (nodes g)" "distinct (nodes (fst st'))"
      by (simp_all add: covered_def)
    from False have "length (nodes g) \<noteq> length (nodes (fst st'))" by (simp add: Order_def)
    moreover from s d have "length (nodes g) \<le> length (nodes (fst st'))"
      using card_mono [of "set (nodes (fst st'))" "set (nodes g)"] by (simp add: distinct_card)
    ultimately have lt: "length (nodes g) < length (nodes (fst st'))" by simp
    from w d fin have "length (nodes (fst st')) \<le> card U"
      using card_mono [of U "set (nodes (fst st'))"] by (simp add: distinct_card)
    with lt have "card U - length (nodes (fst st')) < card U - length (nodes g)" by simp
    from less.hyps [OF this c w]
    obtain y where "expandRounds E opts (r + 1) (roundEdges opts r de) (roundTypes opts r dt)
        (fst st') (snd st') = Some y" by blast
    with p show ?thesis by (subst expandRounds.simps) simp
  qed
qed

lemma Analyze_returns:
  assumes "MaxDepth opts \<noteq> - 1 \<or> closedStore E opts U"
  shows "\<exists>y. Analyze E opts = Some y"
proof -
  have "\<exists>z. expansion E opts = Some z"
  proof (cases "MaxDepth opts \<noteq> - 1")
    case True
    then show ?thesis unfolding expansion_def by (rule expandRounds_returns_depth)
  next
    case False
    with assms have c: "closedStore E opts U" by simp
    from seed_inv [of E opts] have cov: "covered (fst (seed E opts)) (snd (seed E opts))" by simp
    from c have sub: "set (nodes (fst (seed E opts))) \<subseteq> U" by (simp add: nodes_seed closedStore_def)
    from c have fin: "finite U"
      and cl: "\<forall>n \<in> U. fst ` set (objEdges E (Direction opts) n) \<subseteq> U"
      by (simp_all add: closedStore_def)
    from expandRounds_returns_closed [OF fin cl cov sub]
    show ?thesis unfolding expansion_def .
  qed
  then obtain z where "expansion E opts = Some z" by blast
  then show ?thesis by (cases z) (simp_all add: Analyze_def expansion_def)
qed

section \<open>The count of removed nodes\<close>

lemma Order_finish: "Order (finish opts x g) = Order (pruneIslands opts g)"
  by (simp add: Order_def finish_def nodes_publishCanExpand nodes_markSources)

text \<open>
  C3, as the code has it. \<^verbatim>\<open>Analyze\<close> either never returns or returns a result (never a
  failure) whose \<^verbatim>\<open>Removed\<close> is the order of the graph after the outer-layer trim (line
  442 reads it there) minus the final order: the nodes lost to the node-budget prune plus
  the nodes lost to the island prune, and neither the nodes lost to the trim nor anything
  during the expansion. It does return when \<^verbatim>\<open>MaxDepth\<close> is not -1, and when the store is
  finite.
\<close>

theorem C3_removed_after_trim:
  "(Analyze E opts = None \<or>
    (\<exists>res w g x g2 w2.
        Analyze E opts = Some (Inr (res, w)) \<and> expansion E opts = Some (Inr (g, x)) \<and>
        budgetPrune opts x (trimmed E opts g) = Inr (g2, w2) \<and>
        Order (Graph res) = Order (pruneIslands opts g2) \<and>
        Removed res = Order (trimLoop E opts g) - Order (Graph res) \<and>
        Removed res = (Order (trimLoop E opts g) - Order g2)
                      + (Order g2 - Order (pruneIslands opts g2)))) \<and>
   (MaxDepth opts \<noteq> - 1 \<or> closedStore E opts U \<longrightarrow> Analyze E opts \<noteq> None)"
proof (rule conjI)
  show "MaxDepth opts \<noteq> - 1 \<or> closedStore E opts U \<longrightarrow> Analyze E opts \<noteq> None"
  proof
    assume "MaxDepth opts \<noteq> - 1 \<or> closedStore E opts U"
    from Analyze_returns [OF this] show "Analyze E opts \<noteq> None" by auto
  qed
next
  show "Analyze E opts = None \<or>
    (\<exists>res w g x g2 w2.
        Analyze E opts = Some (Inr (res, w)) \<and> expansion E opts = Some (Inr (g, x)) \<and>
        budgetPrune opts x (trimmed E opts g) = Inr (g2, w2) \<and>
        Order (Graph res) = Order (pruneIslands opts g2) \<and>
        Removed res = Order (trimLoop E opts g) - Order (Graph res) \<and>
        Removed res = (Order (trimLoop E opts g) - Order g2)
                      + (Order g2 - Order (pruneIslands opts g2)))"
  proof (cases "Analyze E opts")
    case None
    then show ?thesis by simp
  next
    case (Some y)
    from Analyze_returns_result [OF Some] obtain res w where y: "y = Inr (res, w)" by blast
    from Some y obtain st where e: "expansion E opts = Some (Inr st)"
      and p: "postProcess E opts st = Inr (res, w)"
      by (auto simp: Analyze_def expansion_def split: option.splits sum.splits)
    obtain g x where st: "st = (g, x)" by (cases st)
    from p obtain g2 w2 where b: "budgetPrune opts x (trimmed E opts g) = Inr (g2, w2)"
      and gr: "Graph res = finish opts x g2"
      and rm: "Removed res = Order (trimmed E opts g) - Order (finish opts x g2)"
      by (auto simp: postProcess_def st split: sum.splits prod.splits)
    have a: "Analyze E opts = Some (Inr (res, w))" by (simp add: Some y)
    have e': "expansion E opts = Some (Inr (g, x))" by (simp add: e st)
    have o: "Order (Graph res) = Order (pruneIslands opts g2)" by (simp add: gr Order_finish)
    have r1: "Removed res = Order (trimLoop E opts g) - Order (Graph res)"
      by (simp add: rm gr Order_trimmed)
    have r2: "Removed res = (Order (trimLoop E opts g) - Order g2)
                      + (Order g2 - Order (pruneIslands opts g2))"
      by (simp add: r1 o)
    show ?thesis
      by (rule disjI2, rule exI [of _ res], rule exI [of _ w], rule exI [of _ g],
          rule exI [of _ x], rule exI [of _ g2], rule exI [of _ w2], intro conjI)
        (rule a e' b o r1 r2)+
  qed
qed

text \<open>
  The chain under a budget of 2 nodes. With \<^verbatim>\<open>MaxDepth\<close> 2 the trim leaves 3 nodes and the
  prune deletes one; without a bound on the depth the four objects of the store are
  reached and the prune deletes two.
\<close>

theorem C3_removed_after_trim_witness:
  "MaxDepth limitOptions \<noteq> - 1 \<and>
   (\<exists>res w g x g2 w2.
      Analyze chainStore limitOptions = Some (Inr (res, w)) \<and>
      expansion chainStore limitOptions = Some (Inr (g, x)) \<and>
      budgetPrune limitOptions x (trimmed chainStore limitOptions g) = Inr (g2, w2) \<and>
      Order (Graph res) = Order (pruneIslands limitOptions g2) \<and>
      Removed res = Order (trimLoop chainStore limitOptions g) - Order (Graph res) \<and>
      Removed res = (Order (trimLoop chainStore limitOptions g) - Order g2)
                    + (Order g2 - Order (pruneIslands limitOptions g2)) \<and>
      Removed res = 1 \<and> Order (Graph res) = 2) \<and>
   MaxDepth unboundedOptions = - 1 \<and> closedStore chainStore unboundedOptions {0, 1, 2, 3} \<and>
   (\<exists>res w. Analyze chainStore unboundedOptions = Some (Inr (res, w)) \<and>
      Removed res = 2 \<and> Order (Graph res) = 2)"
proof -
  note t1 = C3_removed_after_trim [of chainStore limitOptions "{}"]
  note t2 = C3_removed_after_trim [of chainStore unboundedOptions "{0, 1, 2, 3}"]
  have d1: "MaxDepth limitOptions \<noteq> - 1"
    by (simp add: limitOptions_def chainOptions_def)
  have d2: "MaxDepth unboundedOptions = - 1"
    by (simp add: unboundedOptions_def NewAnalyzeObjectsOptions_def)
  have c2: "closedStore chainStore unboundedOptions {0, 1, 2, 3}"
    by (simp add: closedStore_def unboundedOptions_def NewAnalyzeObjectsOptions_def chainStore_def
        listStore_def)
  have ev1: "map_option (map_sum id (\<lambda>r. (Removed (fst r), Order (Graph (fst r)))))
      (Analyze chainStore limitOptions) = Some (Inr (1, 2))"
    by code_simp
  have ev2: "map_option (map_sum id (\<lambda>r. (Removed (fst r), Order (Graph (fst r)))))
      (Analyze chainStore unboundedOptions) = Some (Inr (2, 2))"
    by code_simp
  from t1 [THEN conjunct2] d1 have n1: "Analyze chainStore limitOptions \<noteq> None" by simp
  from t2 [THEN conjunct2] c2 have n2: "Analyze chainStore unboundedOptions \<noteq> None" by simp
  from t1 [THEN conjunct1] n1 obtain res w g x g2 w2 where
    a: "Analyze chainStore limitOptions = Some (Inr (res, w))"
    and rest: "expansion chainStore limitOptions = Some (Inr (g, x))"
      "budgetPrune limitOptions x (trimmed chainStore limitOptions g) = Inr (g2, w2)"
      "Order (Graph res) = Order (pruneIslands limitOptions g2)"
      "Removed res = Order (trimLoop chainStore limitOptions g) - Order (Graph res)"
      "Removed res = (Order (trimLoop chainStore limitOptions g) - Order g2)
                    + (Order g2 - Order (pruneIslands limitOptions g2))"
    by blast
  from ev1 a have v1: "Removed res = 1" "Order (Graph res) = 2" by simp_all
  from t2 [THEN conjunct1] n2 obtain res' w' where
    a': "Analyze chainStore unboundedOptions = Some (Inr (res', w'))" by blast
  from ev2 a' have v2: "Removed res' = 2" "Order (Graph res') = 2" by simp_all
  have p1: "\<exists>res w g x g2 w2.
      Analyze chainStore limitOptions = Some (Inr (res, w)) \<and>
      expansion chainStore limitOptions = Some (Inr (g, x)) \<and>
      budgetPrune limitOptions x (trimmed chainStore limitOptions g) = Inr (g2, w2) \<and>
      Order (Graph res) = Order (pruneIslands limitOptions g2) \<and>
      Removed res = Order (trimLoop chainStore limitOptions g) - Order (Graph res) \<and>
      Removed res = (Order (trimLoop chainStore limitOptions g) - Order g2)
                    + (Order g2 - Order (pruneIslands limitOptions g2)) \<and>
      Removed res = 1 \<and> Order (Graph res) = 2"
    by (rule exI [of _ res], rule exI [of _ w], rule exI [of _ g],
          rule exI [of _ x], rule exI [of _ g2], rule exI [of _ w2], intro conjI)
       (rule a rest v1)+
  have p2: "\<exists>res w. Analyze chainStore unboundedOptions = Some (Inr (res, w)) \<and>
      Removed res = 2 \<and> Order (Graph res) = 2"
    by (rule exI [of _ res'], rule exI [of _ w'], intro conjI) (rule a' v2)+
  show ?thesis by (intro conjI) (rule d1 p1 d2 c2 p2)+
qed

text \<open>
  The claim as stated fails where the trim deletes a node: the expansion ends with two
  nodes, the result has one, and \<^verbatim>\<open>Removed\<close> is 0.
\<close>

theorem C3_counterexample:
  "map_option (map_sum id (\<lambda>r. (Removed (fst r), Order (Graph (fst r)))))
     (Analyze trimStore trimOptions) = Some (Inr (0, 1)) \<and>
   map_option (map_sum id (\<lambda>st. Order (fst st))) (expansion trimStore trimOptions) = Some (Inr 2)"
  by code_simp

section \<open>The node-budget prune in the analysis\<close>



section \<open>Authenticated Users and Everyone\<close>

text \<open>
  C7. With \<open>Direction = In\<close> and \<open>DontExpandAUEO\<close>, a node \<open>n\<close> whose SID is the Everyone
  SID or the Authenticated Users SID is not expanded in any round: processing it leaves
  the graph and the node states as they are. No edge of the graph at the end of the
  expansion, and none of the resulting graph, has \<open>n\<close> as its target, so no predecessor
  of \<open>n\<close> has entered the graph through \<open>n\<close>. (The node can be the source of an edge, as
  the predecessor of another node.)
\<close>

theorem C7_aueo_not_expanded:
  assumes "Direction opts = In" and "DontExpandAUEO opts"
    and "objSID E n = EveryoneSID \<or> objSID E n = AuthenticatedUsersSID"
  shows "(\<forall>r de dt g x ei. map_of x n = Some ei \<longrightarrow>
            processNode E opts r de dt n (g, x) = Inr (g, x)) \<and>
         (\<forall>g x. expansion E opts = Some (Inr (g, x)) \<longrightarrow> n \<notin> snd ` fst ` set (edges g)) \<and>
         (\<forall>res w. Analyze E opts = Some (Inr (res, w)) \<longrightarrow> n \<notin> snd ` fst ` set (edges (Graph res)))"
proof -
  from assms have a: "isAUEO E opts n" by (simp add: isAUEO_def)
  have p: "processNode E opts r de dt n (g, x) = Inr (g, x)" if "map_of x n = Some ei"
    for r de dt g x ei
    using that a by (simp add: processNode_def)
  have e: "n \<notin> snd ` fst ` set (edges g)" if ex: "expansion E opts = Some (Inr (g, x))" for g x
  proof
    assume "n \<in> snd ` fst ` set (edges g)"
    then obtain k where k: "k \<in> fst ` set (edges g)" and n: "n = snd k" by auto
    from expansion_state [OF ex] k have "\<not> isAUEO E opts (nearEnd opts k)" by blast
    with a n assms(1) show False by (simp add: nearEnd_def)
  qed
  have r: "n \<notin> snd ` fst ` set (edges (Graph res))"
    if an: "Analyze E opts = Some (Inr (res, w))" for res w
  proof -
    from an obtain g x where ex: "expansion E opts = Some (Inr (g, x))"
      and pp: "postProcess E opts (g, x) = Inr (res, w)"
      by (auto simp: Analyze_def expansion_def split: option.splits sum.splits)
    from postProcess_shrinks [OF pp] have "set (edges (Graph res)) \<subseteq> set (edges g)"
      by (simp add: shrinks_def)
    then have "snd ` fst ` set (edges (Graph res)) \<subseteq> snd ` fst ` set (edges g)"
      by (intro image_mono)
    with e [OF ex] show ?thesis by blast
  qed
  from p e r show ?thesis by blast
qed

text \<open>
  On the chain with Everyone as C: in round 2 the node C is passed over, and the analysis
  returns T and C with the edge C \<rightarrow> T only; C is an immediate predecessor of T and B is
  absent.
\<close>

theorem C7_aueo_not_expanded_witness:
  "Direction chainOptions = In \<and> DontExpandAUEO chainOptions \<and>
   objSID everyoneStore 2 = EveryoneSID \<and>
   processNode everyoneStore chainOptions 2 {0} None 2
     (AddEdge NewGraph 2 3 {0},
      [(3, \<lparr>CanExpand = 0, processRound = 1, accumulatedprobability = 1\<rparr>),
       (2, \<lparr>CanExpand = 0, processRound = 2, accumulatedprobability = 1\<rparr>)])
   = Inr (AddEdge NewGraph 2 3 {0},
      [(3, \<lparr>CanExpand = 0, processRound = 1, accumulatedprobability = 1\<rparr>),
       (2, \<lparr>CanExpand = 0, processRound = 2, accumulatedprobability = 1\<rparr>)]) \<and>
   (\<exists>res w. Analyze everyoneStore chainOptions = Some (Inr (res, w)) \<and>
      nodes (Graph res) = [3, 2] \<and> map fst (edges (Graph res)) = [(2, 3)] \<and>
      2 \<notin> snd ` fst ` set (edges (Graph res)))"
proof -
  let ?x = "[(3 :: nat, \<lparr>CanExpand = 0, processRound = 1, accumulatedprobability = 1\<rparr>),
             (2, \<lparr>CanExpand = 0, processRound = 2, accumulatedprobability = 1\<rparr>)]"
  have h1: "Direction chainOptions = In"
    by (simp add: chainOptions_def NewAnalyzeObjectsOptions_def)
  have h2: "DontExpandAUEO chainOptions"
    by (simp add: chainOptions_def NewAnalyzeObjectsOptions_def)
  have h3: "objSID everyoneStore 2 = EveryoneSID"
    by (simp add: everyoneStore_def)
  have h4: "map_of ?x 2 = Some \<lparr>CanExpand = 0, processRound = 2, accumulatedprobability = 1\<rparr>"
    by simp
  have "map_option (map_sum id (\<lambda>r. (nodes (Graph (fst r)), map fst (edges (Graph (fst r))))))
     (Analyze everyoneStore chainOptions) = Some (Inr ([3, 2], [(2, 3)]))"
    by code_simp
  then obtain res w where an: "Analyze everyoneStore chainOptions = Some (Inr (res, w))"
    and ns: "nodes (Graph res) = [3, 2]" and es: "map fst (edges (Graph res)) = [(2, 3)]"
    by (cases "Analyze everyoneStore chainOptions") (auto simp: map_sum_def split: sum.splits)
  note c7 = C7_aueo_not_expanded [OF h1 h2 disjI1 [OF h3]]
  have p: "processNode everyoneStore chainOptions 2 {0} None 2 (AddEdge NewGraph 2 3 {0}, ?x)
      = Inr (AddEdge NewGraph 2 3 {0}, ?x)"
    by (rule c7 [THEN conjunct1, rule_format, OF h4])
  have t: "2 \<notin> snd ` fst ` set (edges (Graph res))"
    by (rule c7 [THEN conjunct2, THEN conjunct2, rule_format, OF an])
  have r: "\<exists>res w. Analyze everyoneStore chainOptions = Some (Inr (res, w)) \<and>
      nodes (Graph res) = [3, 2] \<and> map fst (edges (Graph res)) = [(2, 3)] \<and>
      2 \<notin> snd ` fst ` set (edges (Graph res))"
    by (rule exI [of _ res], rule exI [of _ w], intro conjI) (rule an ns es t)+
  show ?thesis
    by (intro conjI) (rule h1 h2 h3 p r)+
qed

end
